theory Spec2Isabelle
  imports Complex_Main "HOL-Library.Log_Nat" "HOL-Library.Sublist"
begin

section \<open>The settings resolver (src/domain/compression/schema.ts)\<close>

text \<open>
  \<^verbatim>\<open>OutputFormatSchema = z.enum(['keep', 'webp', 'jpeg', 'png'])\<close> and
  \<^verbatim>\<open>CompressionLevelSchema = z.enum(['light', 'balanced', 'aggressive'])\<close>
  are closed enumerations. The source format \<^verbatim>\<open>ImageFormatDisplay\<close> is declared in
  the module \<^verbatim>\<open>@/domain/constants\<close>; the resolver only compares it with
  the literals \<^verbatim>\<open>'HEIC'\<close>, \<^verbatim>\<open>'WEBP'\<close> and \<^verbatim>\<open>'JPEG'\<close>, so it is a string here.
\<close>

datatype OutputFormatType = Keep | Webp | Jpeg | Png

datatype CompressionLevelType = Light | Balanced | Aggressive

record ResolvedCompressionParams =
  quality :: int
  format :: string
  lossy :: bool

fun QUALITY_MAP :: "CompressionLevelType \<Rightarrow> int" where
  "QUALITY_MAP Light = 100"
| "QUALITY_MAP Balanced = 80"
| "QUALITY_MAP Aggressive = 60"

fun MOZJPEG_QUALITY_MAP :: "CompressionLevelType \<Rightarrow> int" where
  "MOZJPEG_QUALITY_MAP Light = 92"
| "MOZJPEG_QUALITY_MAP Balanced = 80"
| "MOZJPEG_QUALITY_MAP Aggressive = 60"

text \<open>The local variable \<^verbatim>\<open>effectiveFormat: 'webp' | 'jpeg' | 'png' | 'auto'\<close>.\<close>

datatype EffectiveFormat = EffWebp | EffJpeg | EffPng | EffAuto

definition effectiveFormat :: "OutputFormatType \<Rightarrow> string \<Rightarrow> EffectiveFormat" where
  "effectiveFormat outputFormat imageFormat =
     (let isHeic = (imageFormat = ''HEIC'') in
      case outputFormat of
        Keep \<Rightarrow> (if isHeic then EffJpeg else EffAuto)
      | Webp \<Rightarrow> EffWebp
      | Jpeg \<Rightarrow> EffJpeg
      | Png \<Rightarrow> EffPng)"

definition resolveCompressionParams ::
  "OutputFormatType \<Rightarrow> CompressionLevelType \<Rightarrow> string \<Rightarrow> ResolvedCompressionParams" where
  "resolveCompressionParams outputFormat level imageFormat =
     (case effectiveFormat outputFormat imageFormat of
        EffWebp \<Rightarrow>
          (let isLossless = (level = Light) in
           \<lparr>quality = QUALITY_MAP level, format = ''webp'', lossy = \<not> isLossless\<rparr>)
      | EffJpeg \<Rightarrow>
          \<lparr>quality = MOZJPEG_QUALITY_MAP level, format = ''jpeg'', lossy = True\<rparr>
      | EffPng \<Rightarrow>
          \<lparr>quality = 100, format = ''png'', lossy = False\<rparr>
      | EffAuto \<Rightarrow>
          (if imageFormat = ''WEBP'' then
             (let isLossless = (level = Light) in
              \<lparr>quality = QUALITY_MAP level, format = ''auto'', lossy = \<not> isLossless\<rparr>)
           else if imageFormat = ''JPEG'' then
             \<lparr>quality = MOZJPEG_QUALITY_MAP level, format = ''auto'', lossy = True\<rparr>
           else
             \<lparr>quality = 100, format = ''auto'', lossy = False\<rparr>))"

section \<open>Image records\<close>

text \<open>
  Modelled from the spec: the class \<^verbatim>\<open>ImageEntity\<close> (module
  \<^verbatim>\<open>@/domain/image/entity\<close>) is imported by the store and defined
  elsewhere. Its fields are those the store reads and writes; its operations follow
  sections 3 and 4.1 of the specification: \<^verbatim>\<open>toProcessing\<close> requires the status
  pending, \<^verbatim>\<open>toCompleted\<close> and \<^verbatim>\<open>toError\<close> require the status processing,
  and a call that breaks the requirement is a logic error, which is an exception here;
  \<^verbatim>\<open>updateProgress\<close> does nothing unless the status is processing and otherwise
  clamps the value to 0..100 and stores it; the progress is 100 after completion.
  The field \<^verbatim>\<open>id\<close> is called \<open>id_of\<close>, and \<^verbatim>\<open>format\<close> is
  \<open>image_format\<close>, since \<open>id\<close> and \<open>format\<close> are taken.
\<close>

datatype ImageStatus = Pending | Processing | Completed | Error

datatype exn = Exn string

record EstimatedCompression =
  percent :: nat
  ratio :: rat
  confidence :: rat
  sample_count :: nat

record ImageEntity =
  id_of :: string
  name :: string
  path :: string
  originalSize :: nat
  image_format :: string
  preview :: string
  status :: ImageStatus
  progress :: int
  compressedSize :: "nat option"
  outputPath :: "string option"
  estimatedCompression :: EstimatedCompression

definition isPending :: "ImageEntity \<Rightarrow> bool" where
  "isPending img = (status img = Pending)"

definition isCompleted :: "ImageEntity \<Rightarrow> bool" where
  "isCompleted img = (status img = Completed)"

definition withStatus :: "ImageStatus \<Rightarrow> ImageEntity \<Rightarrow> ImageEntity" where
  "withStatus s img = img\<lparr>status := s\<rparr>"

definition toProcessing :: "int \<Rightarrow> ImageEntity \<Rightarrow> exn + ImageEntity" where
  "toProcessing initialProgress img =
     (if status img = Pending
      then Inr (img\<lparr>status := Processing, progress := initialProgress\<rparr>)
      else Inl (Exn ''toProcessing requires status pending''))"

definition toCompleted :: "nat \<Rightarrow> string \<Rightarrow> ImageEntity \<Rightarrow> exn + ImageEntity" where
  "toCompleted size_bytes out img =
     (if status img = Processing
      then Inr (img\<lparr>status := Completed, progress := 100,
                    compressedSize := Some size_bytes, outputPath := Some out\<rparr>)
      else Inl (Exn ''toCompleted requires status processing''))"

definition toError :: "ImageEntity \<Rightarrow> exn + ImageEntity" where
  "toError img =
     (if status img = Processing
      then Inr (img\<lparr>status := Error\<rparr>)
      else Inl (Exn ''toError requires status processing''))"

definition updateProgress :: "int \<Rightarrow> ImageEntity \<Rightarrow> ImageEntity" where
  "updateProgress v img =
     (if status img = Processing then img\<lparr>progress := max 0 (min 100 v)\<rparr> else img)"

section \<open>The store (src/store/imageStore.ts)\<close>

datatype CompressionState = StateIdle | StateProcessing | StateCompleted | StateError

datatype Stage = Loading | Compressing | Saving | Complete | StageError

record CompressResult =
  compressed_size :: nat
  output_path :: string

record CompressImageResponse =
  success :: bool
  result :: "CompressResult option"
  error :: "string option"

text \<open>
  The progress of an event is a JavaScript number, a binary64 value; the field holds the
  rational it stands for.
\<close>

record CompressionProgressEvent =
  image_id :: string
  image_name :: string
  stage :: Stage
  event_progress :: rat
  estimated_time_remaining :: "nat option"

text \<open>
  \<^verbatim>\<open>Math.round\<close> gives the nearest integer, a half going towards
  \<open>+\<infinity>\<close>.
\<close>

definition Math_round :: "rat \<Rightarrow> int" where
  "Math_round x = \<lfloor>x + 1 / 2\<rfloor>"

text \<open>
  The product \<^verbatim>\<open>progressData.progress * 100\<close> is a binary64 product: the
  exact product rounded to the nearest value with 53 significant bits, a tie going to the
  even significand; below \<open>2 powi - 1022\<close> the spacing stays
  \<open>2 powi - 1074\<close>. \<open>exponentOf a\<close> is the \<open>e\<close> with
  \<open>2 powi e \<le> a < 2 powi (e + 1)\<close>, for \<open>a > 0\<close>. Results of magnitude
  \<open>2 powi 1024\<close> and more, which are infinite in JavaScript, are beyond the events
  looked at here.
\<close>

definition roundTiesToEven :: "rat \<Rightarrow> int" where
  "roundTiesToEven t =
     (let f = \<lfloor>t\<rfloor>; r = t - of_int f
      in if r < 1 / 2 then f else if 1 / 2 < r then f + 1 else if even f then f else f + 1)"

definition exponentOf :: "rat \<Rightarrow> int" where
  "exponentOf a =
     (case quotient_of a of
        (p, q) \<Rightarrow> (let c = bitlen p - bitlen q in if 2 powi c \<le> a then c else c - 1))"

definition binary64 :: "rat \<Rightarrow> rat" where
  "binary64 x =
     (if x = 0 then 0
      else (let a = \<bar>x\<bar>;
                u = 2 powi (max (exponentOf a) (- 1022) - 52)
            in sgn x * of_int (roundTiesToEven (a / u)) * u))"

record CompressionSettings =
  qualitySetting :: int
  keepOriginalFormat :: bool

text \<open>The \<^verbatim>\<open>request\<close> object passed to the command \<^verbatim>\<open>compress_image\<close>.\<close>

record CompressRequest =
  file_path :: string
  request_quality :: int
  request_format :: string

text \<open>
  What the store does to the outside is kept in a journal: the commands it invokes on the
  backend, its calls of the progress service, and its notifications. The journal also
  holds, for every write that maps over the image collection, the status changes the
  write makes, in the order of the collection: the id, the status before and after, and
  for a change into processing the progress the record starts with.
\<close>

datatype Effect =
    StatusChange string ImageStatus ImageStatus "int option"
  | StartSmartProgress string string string nat int
  | CompleteImageProgress string
  | ErrorImageProgress string string
  | InvokeGetFileInformation string
  | InvokeCompressImage CompressRequest string
  | InvokeRecordWithTime string string nat nat nat string
  | InvokeRecord string string nat nat string
  | ToastSuccess string
  | ToastError string

text \<open>
  The state of the store, and with it the two things outside the store that its actions
  change: the sessions of the progress service (the ids with a running session) and the
  subscriptions to the channel \<^verbatim>\<open>compression-progress\<close> (the handles that
  \<^verbatim>\<open>listen\<close> returned and that were not released).
\<close>

record World =
  images :: "ImageEntity list"
  compressionState :: CompressionState
  isProcessing :: bool
  compressionSettings :: CompressionSettings
  progressState :: "string \<rightharpoonup> int"
  sessions :: "string list"
  listeners :: "nat list"
  nextHandle :: nat
  journal :: "Effect list"

definition emit :: "Effect list \<Rightarrow> World \<Rightarrow> World" where
  "emit es w = w\<lparr>journal := journal w @ es\<rparr>"

subsection \<open>Writes that map over the collection\<close>

text \<open>
  \<^verbatim>\<open>state.images.map(f)\<close> runs \<^verbatim>\<open>f\<close> from left to right; an exception
  in \<^verbatim>\<open>f\<close> leaves \<^verbatim>\<open>set\<close> uncalled, so the store keeps its state.
\<close>

fun mapE :: "('a \<Rightarrow> exn + 'b) \<Rightarrow> 'a list \<Rightarrow> exn + 'b list" where
  "mapE f [] = Inr []"
| "mapE f (x # xs) =
     (case f x of
        Inl e \<Rightarrow> Inl e
      | Inr y \<Rightarrow> (case mapE f xs of Inl e \<Rightarrow> Inl e | Inr ys \<Rightarrow> Inr (y # ys)))"

fun status_changes :: "ImageEntity list \<Rightarrow> ImageEntity list \<Rightarrow> Effect list" where
  "status_changes (a # as) (b # bs) =
     (if status a \<noteq> status b
      then [StatusChange (id_of a) (status a) (status b)
              (if status b = Processing then Some (progress b) else None)]
      else [])
     @ status_changes as bs"
| "status_changes _ _ = []"

definition setImages :: "ImageEntity list \<Rightarrow> World \<Rightarrow> World" where
  "setImages imgs w = w\<lparr>images := imgs, journal := journal w @ status_changes (images w) imgs\<rparr>"

definition mapImagesE :: "(ImageEntity \<Rightarrow> exn + ImageEntity) \<Rightarrow> World \<Rightarrow> exn + World" where
  "mapImagesE f w =
     (case mapE f (images w) of Inl e \<Rightarrow> Inl e | Inr imgs \<Rightarrow> Inr (setImages imgs w))"

definition mapImages :: "(ImageEntity \<Rightarrow> ImageEntity) \<Rightarrow> World \<Rightarrow> World" where
  "mapImages f w = setImages (map f (images w)) w"

text \<open>\<^verbatim>\<open>img.id === imageId ? f(img) : img\<close>\<close>

definition onImage :: "string \<Rightarrow> (ImageEntity \<Rightarrow> exn + ImageEntity) \<Rightarrow> ImageEntity \<Rightarrow> exn + ImageEntity" where
  "onImage imageId f img = (if id_of img = imageId then f img else Inr img)"

subsection \<open>Actions on images and settings\<close>

definition removeImage :: "string \<Rightarrow> World \<Rightarrow> World" where
  "removeImage imageId w = w\<lparr>images := filter (\<lambda>img. id_of img \<noteq> imageId) (images w)\<rparr>"

definition clearImages :: "World \<Rightarrow> World" where
  "clearImages w = w\<lparr>images := [], compressionState := StateIdle, progressState := Map.empty\<rparr>"

definition resetProcessingImages :: "World \<Rightarrow> World" where
  "resetProcessingImages w =
     (mapImages (\<lambda>img. if status img = Processing then withStatus Pending img else img) w)
       \<lparr>isProcessing := False, compressionState := StateIdle\<rparr>"

definition updateImageProgress :: "string \<Rightarrow> int \<Rightarrow> World \<Rightarrow> World" where
  "updateImageProgress imageId p w =
     (mapImages (\<lambda>img. if id_of img = imageId then updateProgress p img else img) w)
       \<lparr>progressState := (progressState w)(imageId \<mapsto> p)\<rparr>"

text \<open>
  \<^verbatim>\<open>setCompressionSettings(newSettings: Partial<CompressionSettings>)\<close>: a field
  that is absent from the argument keeps its value.
\<close>

definition setCompressionSettings :: "int option \<Rightarrow> bool option \<Rightarrow> World \<Rightarrow> World" where
  "setCompressionSettings q k w =
     w\<lparr>compressionSettings :=
         \<lparr>qualitySetting = (case q of None \<Rightarrow> qualitySetting (compressionSettings w) | Some v \<Rightarrow> v),
          keepOriginalFormat =
            (case k of None \<Rightarrow> keepOriginalFormat (compressionSettings w) | Some v \<Rightarrow> v)\<rparr>\<rparr>"

definition toggleWebPConversion :: "World \<Rightarrow> World" where
  "toggleWebPConversion w =
     w\<lparr>compressionSettings :=
         (compressionSettings w)\<lparr>keepOriginalFormat := \<not> keepOriginalFormat (compressionSettings w)\<rparr>\<rparr>"

definition toggleLossyMode :: "World \<Rightarrow> World" where
  "toggleLossyMode w =
     w\<lparr>compressionSettings :=
         (compressionSettings w)\<lparr>qualitySetting :=
            (if qualitySetting (compressionSettings w) \<ge> 90 then 80 else 95)\<rparr>\<rparr>"

definition setQuality :: "int \<Rightarrow> World \<Rightarrow> World" where
  "setQuality q w =
     w\<lparr>compressionSettings := (compressionSettings w)\<lparr>qualitySetting := max 1 (min 100 q)\<rparr>\<rparr>"

subsection \<open>The progress service\<close>

text \<open>
  Modelled from the spec: the object \<^verbatim>\<open>progressService\<close> (module
  \<^verbatim>\<open>@/domain/progress\<close>) is imported by the store and defined elsewhere. By
  section 4.4 of the specification, starting a session for an id discards any session the
  id has; \<^verbatim>\<open>completeImageProgress\<close> on an id with a session reports 100 through
  \<^verbatim>\<open>onProgress\<close> (which the store wires to \<^verbatim>\<open>updateImageProgress\<close>),
  then ends the session; \<^verbatim>\<open>errorImageProgress\<close> ends the session; both do
  nothing on an id without a session. Whether \<^verbatim>\<open>startSmartProgress\<close> can reject is
  not said, so its reply is an input (\<open>None\<close> when it resolves).
\<close>

definition startSmartProgress ::
  "string \<Rightarrow> string \<Rightarrow> string \<Rightarrow> nat \<Rightarrow> int \<Rightarrow> exn option \<Rightarrow> World \<Rightarrow> World" where
  "startSmartProgress imageId sourceFormat targetFormat sizeBytes q reply w =
     (let w1 = emit [StartSmartProgress imageId sourceFormat targetFormat sizeBytes q] w
      in case reply of
           None \<Rightarrow> w1\<lparr>sessions := imageId # removeAll imageId (sessions w1)\<rparr>
         | Some e \<Rightarrow> w1)"

definition completeImageProgress :: "string \<Rightarrow> World \<Rightarrow> World" where
  "completeImageProgress imageId w =
     (let w1 = emit [CompleteImageProgress imageId] w
      in if imageId \<in> set (sessions w1)
         then (updateImageProgress imageId 100 w1)\<lparr>sessions := removeAll imageId (sessions w1)\<rparr>
         else w1)"

definition errorImageProgress :: "string \<Rightarrow> string \<Rightarrow> World \<Rightarrow> World" where
  "errorImageProgress imageId message w =
     (let w1 = emit [ErrorImageProgress imageId message] w
      in if imageId \<in> set (sessions w1)
         then w1\<lparr>sessions := removeAll imageId (sessions w1)\<rparr>
         else w1)"

subsection \<open>The listener of backend progress events\<close>

text \<open>
  The callback given to \<^verbatim>\<open>listen\<close>. The update of the progress is applied before
  the stage is looked at, so it stays when the write for the stage \<^verbatim>\<open>Error\<close> throws.
\<close>

definition onProgressEvent :: "CompressionProgressEvent \<Rightarrow> World \<Rightarrow> World \<times> exn option" where
  "onProgressEvent progressData w =
     (let progressPercent = Math_round (binary64 (event_progress progressData * 100));
          w1 = updateImageProgress (image_id progressData) progressPercent w
      in if stage progressData = StageError
         then (case mapImagesE (onImage (image_id progressData) toError) w1 of
                 Inl e \<Rightarrow> (w1, Some e)
               | Inr w2 \<Rightarrow> (w2, None))
         else (w1, None))"

text \<open>
  An event of the channel runs the callback of every subscription that is active; an
  exception of a callback ends that callback only.
\<close>

fun deliver :: "nat list \<Rightarrow> CompressionProgressEvent \<Rightarrow> World \<Rightarrow> World" where
  "deliver [] ev w = w"
| "deliver (h # hs) ev w = deliver hs ev (fst (onProgressEvent ev w))"

definition backendEvent :: "CompressionProgressEvent \<Rightarrow> World \<Rightarrow> World" where
  "backendEvent ev w = deliver (listeners w) ev w"

text \<open>
  \<^verbatim>\<open>setupListener\<close> reads the variable \<^verbatim>\<open>unlisten\<close> of the enclosing call of
  \<^verbatim>\<open>initializeProgressListener\<close>, releases the subscription it holds, if any, and
  subscribes; \<open>listenOk\<close> says whether \<^verbatim>\<open>listen\<close> resolves (a rejection is
  caught and logged). The variable is declared inside \<^verbatim>\<open>initializeProgressListener\<close>,
  \<^verbatim>\<open>let unlisten: (() => void) | undefined\<close>, so it is undefined when
  \<^verbatim>\<open>setupListener\<close> starts, in every call.
\<close>

definition setupListener :: "nat option \<Rightarrow> bool \<Rightarrow> World \<Rightarrow> World" where
  "setupListener unlisten listenOk w =
     (let w1 = (case unlisten of
                  Some h \<Rightarrow> w\<lparr>listeners := removeAll h (listeners w)\<rparr>
                | None \<Rightarrow> w)
      in if listenOk
         then w1\<lparr>listeners := listeners w1 @ [nextHandle w1], nextHandle := Suc (nextHandle w1)\<rparr>
         else w1)"

definition initializeProgressListener :: "bool \<Rightarrow> World \<Rightarrow> World" where
  "initializeProgressListener listenOk w =
     (let unlisten = None in setupListener unlisten listenOk w)"

subsection \<open>What else happens while an action waits\<close>

text \<open>
  The actions of the store are asynchronous: while one of them waits for the backend,
  the other actions and the callbacks run. \<open>Action\<close> lists what can run then;
  \<open>AddImagesSet\<close> is the write that ends a call of \<^verbatim>\<open>addImages\<close>.
\<close>

definition appendImages :: "ImageEntity list \<Rightarrow> World \<Rightarrow> World" where
  "appendImages newImages w = w\<lparr>images := images w @ newImages\<rparr>"

datatype Action =
    AddImagesSet "ImageEntity list"
  | RemoveImage string
  | ClearImages
  | ResetProcessingImages
  | SetCompressionSettings "int option" "bool option"
  | ToggleWebPConversion
  | ToggleLossyMode
  | SetQuality int
  | UpdateImageProgress string int
  | BackendEvent CompressionProgressEvent
  | InitializeProgressListener bool

fun perform :: "Action \<Rightarrow> World \<Rightarrow> World" where
  "perform (AddImagesSet newImages) w = appendImages newImages w"
| "perform (RemoveImage imageId) w = removeImage imageId w"
| "perform ClearImages w = clearImages w"
| "perform ResetProcessingImages w = resetProcessingImages w"
| "perform (SetCompressionSettings q k) w = setCompressionSettings q k w"
| "perform ToggleWebPConversion w = toggleWebPConversion w"
| "perform ToggleLossyMode w = toggleLossyMode w"
| "perform (SetQuality q) w = setQuality q w"
| "perform (UpdateImageProgress imageId p) w = updateImageProgress imageId p w"
| "perform (BackendEvent ev) w = backendEvent ev w"
| "perform (InitializeProgressListener listenOk) w = initializeProgressListener listenOk w"

fun performAll :: "Action list \<Rightarrow> World \<Rightarrow> World" where
  "performAll [] w = w"
| "performAll (a # as) w = performAll as (perform a w)"

subsection \<open>startCompression\<close>

text \<open>
  The replies of the outside to the calls made for one image, and what runs during
  each wait. A reply \<open>Inl e\<close> or \<open>Some e\<close> is a rejection.
\<close>

record Outcome =
  progressStartReply :: "exn option"
  compressReply :: "exn + CompressImageResponse"
  compressionTimeMs :: nat
  recordWithTimeReply :: "exn option"
  recordReply :: "exn option"
  whileProgressStart :: "Action list"
  whileCompress :: "Action list"
  whileRecordWithTime :: "Action list"
  whileRecord :: "Action list"

fun exn_text :: "exn \<Rightarrow> string" where
  "exn_text (Exn s) = s"

text \<open>\<^verbatim>\<open>toUpperCase\<close>, on the letters a to z.\<close>

definition toUpperChar :: "char \<Rightarrow> char" where
  "toUpperChar c =
     (let n = (of_char c :: nat) in if 97 \<le> n \<and> n \<le> 122 then char_of (n - 32) else c)"

definition toUpperCase :: "string \<Rightarrow> string" where
  "toUpperCase s = map toUpperChar s"

definition compressRequest :: "CompressionSettings \<Rightarrow> ImageEntity \<Rightarrow> CompressRequest" where
  "compressRequest cs img =
     \<lparr>file_path = path img,
      request_quality = qualitySetting cs,
      request_format = (if keepOriginalFormat cs then ''auto'' else ''webp'')\<rparr>"

text \<open>Lines 302 to 336: the two recording calls. Neither can throw out of its \<^verbatim>\<open>try\<close>.\<close>

definition recordTelemetry ::
  "CompressionSettings \<Rightarrow> Outcome \<Rightarrow> ImageEntity \<Rightarrow> CompressResult \<Rightarrow> World \<Rightarrow> World" where
  "recordTelemetry cs oc img res w =
     (let outputFormat =
            (if keepOriginalFormat cs then toUpperCase (image_format img) else ''WEBP'');
          w1 = performAll (whileRecordWithTime oc)
                 (emit [InvokeRecordWithTime (toUpperCase (image_format img)) outputFormat
                          (originalSize img) (compressed_size res) (compressionTimeMs oc)
                          ''plume-v0.1.0''] w)
      in case recordWithTimeReply oc of
           None \<Rightarrow> w1
         | Some dbError \<Rightarrow>
             performAll (whileRecord oc)
               (emit [InvokeRecord (toUpperCase (image_format img))
                        (if keepOriginalFormat cs then toUpperCase (image_format img) else ''WEBP'')
                        (originalSize img) (compressed_size res) ''plume-v0.1.0''] w1))"

text \<open>Lines 290 to 336: the branch \<^verbatim>\<open>response.success && response.result\<close>.\<close>

definition onSuccess ::
  "CompressionSettings \<Rightarrow> Outcome \<Rightarrow> ImageEntity \<Rightarrow> CompressResult \<Rightarrow> World
   \<Rightarrow> World \<times> exn option" where
  "onSuccess cs oc img res w =
     (let w1 = completeImageProgress (id_of img) w
      in case mapImagesE (onImage (id_of img)
                (toCompleted (compressed_size res) (output_path res))) w1 of
           Inl e \<Rightarrow> (w1, Some e)
         | Inr w2 \<Rightarrow> (recordTelemetry cs oc img res w2, None))"

text \<open>Lines 337 to 345: the other branch. An absent \<^verbatim>\<open>error\<close> prints as \<^verbatim>\<open>undefined\<close>.\<close>

definition onFailure :: "ImageEntity \<Rightarrow> CompressImageResponse \<Rightarrow> World \<Rightarrow> World \<times> exn option" where
  "onFailure img response w =
     (let message = (case error response of
                       None \<Rightarrow> ''Compression failed''
                     | Some e \<Rightarrow> (if e = [] then ''Compression failed'' else e));
          w1 = errorImageProgress (id_of img) message w
      in case mapImagesE (onImage (id_of img) toError) w1 of
           Inl e \<Rightarrow> (w1, Some e)
         | Inr w2 \<Rightarrow>
             (emit [ToastError (''Erreur compression '' @ name img @ '': '' @
                      (case error response of None \<Rightarrow> ''undefined'' | Some e \<Rightarrow> e))] w2,
              None))"

text \<open>
  Lines 242 to 345, the body of the inner \<^verbatim>\<open>try\<close>. The result is the state reached
  and the exception that left the body, if any.
\<close>

definition tryImage ::
  "CompressionSettings \<Rightarrow> Outcome \<Rightarrow> ImageEntity \<Rightarrow> World \<Rightarrow> World \<times> exn option" where
  "tryImage cs oc img w =
     (case mapImagesE (onImage (id_of img) (toProcessing 0)) w of
        Inl e \<Rightarrow> (w, Some e)
      | Inr w1 \<Rightarrow>
          (let outputFormat = (if keepOriginalFormat cs then image_format img else ''webp'');
               w2 = performAll (whileProgressStart oc)
                      (startSmartProgress (id_of img) (image_format img) outputFormat
                         (originalSize img) (qualitySetting cs) (progressStartReply oc) w1)
           in case progressStartReply oc of
                Some e \<Rightarrow> (w2, Some e)
              | None \<Rightarrow>
                  (let w3 = performAll (whileCompress oc)
                              (emit [InvokeCompressImage (compressRequest cs img) (id_of img)] w2)
                   in case compressReply oc of
                        Inl e \<Rightarrow> (w3, Some e)
                      | Inr response \<Rightarrow>
                          (case result response of
                             Some res \<Rightarrow>
                               (if success response then onSuccess cs oc img res w3
                                else onFailure img response w3)
                           | None \<Rightarrow> onFailure img response w3))))"

text \<open>Lines 346 to 354: the \<^verbatim>\<open>catch\<close> of the inner \<^verbatim>\<open>try\<close>.\<close>

definition catchImage :: "ImageEntity \<Rightarrow> exn \<Rightarrow> World \<Rightarrow> World \<times> exn option" where
  "catchImage img err w =
     (let w1 = errorImageProgress (id_of img) (exn_text err) w
      in case mapImagesE (onImage (id_of img) toError) w1 of
           Inl e \<Rightarrow> (w1, Some e)
         | Inr w2 \<Rightarrow>
             (emit [ToastError (''Erreur compression '' @ name img @ '': '' @ exn_text err)] w2,
              None))"

text \<open>
  Lines 242 to 354: the inner \<^verbatim>\<open>try\<close> with its \<^verbatim>\<open>catch\<close>. The loop
  variable \<^verbatim>\<open>image\<close> is \<open>img\<close> here.
\<close>

definition processImage ::
  "CompressionSettings \<Rightarrow> Outcome \<Rightarrow> ImageEntity \<Rightarrow> World \<Rightarrow> World \<times> exn option" where
  "processImage cs oc img w =
     (case tryImage cs oc img w of
        (w1, None) \<Rightarrow> (w1, None)
      | (w1, Some err) \<Rightarrow> catchImage img err w1)"

text \<open>
  The loop \<^verbatim>\<open>for (const image of pendingImages)\<close>; \<open>script k\<close> is what the
  outside does for the image at position \<open>k\<close> of the snapshot. An exception that
  leaves \<^verbatim>\<open>processImage\<close> leaves the loop.
\<close>

fun processAll ::
  "CompressionSettings \<Rightarrow> (nat \<Rightarrow> Outcome) \<Rightarrow> nat \<Rightarrow> ImageEntity list \<Rightarrow> World
   \<Rightarrow> World \<times> exn option" where
  "processAll cs script k [] w = (w, None)"
| "processAll cs script k (img # rest) w =
     (case processImage cs (script k) img w of
        (w1, Some e) \<Rightarrow> (w1, Some e)
      | (w1, None) \<Rightarrow> processAll cs script (Suc k) rest w1)"

definition pendingImages :: "World \<Rightarrow> ImageEntity list" where
  "pendingImages w = filter isPending (images w)"

text \<open>
  \<^verbatim>\<open>startCompression\<close>: the state and the settings are read once, at the start
  (\<^verbatim>\<open>const { images, isProcessing, compressionSettings } = get()\<close>); the
  \<^verbatim>\<open>finally\<close> clears the flag on both ways out of the loop.
\<close>

definition startCompression :: "(nat \<Rightarrow> Outcome) \<Rightarrow> World \<Rightarrow> World \<times> exn option" where
  "startCompression script w =
     (let cs = compressionSettings w
      in if isProcessing w then (w, None)
         else if pendingImages w = [] then (w, None)
         else (case processAll cs script 0 (pendingImages w)
                      (w\<lparr>isProcessing := True, compressionState := StateProcessing\<rparr>) of
                 (w1, None) \<Rightarrow>
                   (w1\<lparr>compressionState := StateCompleted, isProcessing := False\<rparr>, None)
               | (w1, Some e) \<Rightarrow> (w1\<lparr>isProcessing := False\<rparr>, Some e)))"

subsection \<open>addImages\<close>

text \<open>
  \<^verbatim>\<open>s.split(sep)\<close> for a separator that is not empty, scanning from the left.
\<close>

fun splitOn :: "string \<Rightarrow> string \<Rightarrow> string \<Rightarrow> string list" where
  "splitOn sep acc [] = [rev acc]"
| "splitOn sep acc (c # cs) =
     (if take (length sep) (c # cs) = sep
      then rev acc # splitOn sep [] (drop (length sep - 1) cs)
      else splitOn sep (c # acc) cs)"

definition fileNameOf :: "string \<Rightarrow> string" where
  "fileNameOf filePath =
     (let a = last (splitOn ''/'' [] filePath);
          b = last (splitOn [CHR 0x5C, CHR 0x5C] [] filePath)
      in if a \<noteq> [] then a else if b \<noteq> [] then b else ''unknown'')"

fun digitsOf :: "nat \<Rightarrow> string" where
  "digitsOf n =
     (if n < 10 then [char_of (48 + n)] else digitsOf (n div 10) @ [char_of (48 + n mod 10)])"

declare digitsOf.simps [simp del]

text \<open>
  Modelled from the spec: \<^verbatim>\<open>ImageEntity.fromData\<close> builds the record of a new image
  from the data given (section 3: created on intake with status pending).
  \<^verbatim>\<open>detectImageFormat\<close> (module \<^verbatim>\<open>@/domain/constants\<close>) is a parameter.
\<close>

definition newImage ::
  "(string \<Rightarrow> string) \<Rightarrow> (string \<Rightarrow> nat option) \<Rightarrow> string \<Rightarrow> string \<Rightarrow> ImageEntity" where
  "newImage detectImageFormat fileInformation tempId filePath =
     (let fileName = fileNameOf filePath;
          fileSize = (case fileInformation filePath of None \<Rightarrow> 0 | Some n \<Rightarrow> n)
      in \<lparr>id_of = tempId, name = fileName, path = filePath, originalSize = fileSize,
          image_format = detectImageFormat fileName,
          preview = ''asset://localhost/'' @ filePath,
          status = Pending, progress = 0, compressedSize = None, outputPath = None,
          estimatedCompression =
            \<lparr>percent = 65, ratio = 35 / 100, confidence = 1 / 2, sample_count = 10\<rparr>\<rparr>)"

text \<open>
  \<open>fileInformation p\<close> is the size that \<^verbatim>\<open>get_file_information\<close> returns for
  \<open>p\<close>, \<open>None\<close> when the command fails; \<open>tempId k\<close> is the id drawn for the
  new image at position \<open>k\<close>; \<open>during\<close> is what runs while the action waits for
  the file information. The action reads the collection when it starts and not again
  before its final write, which appends to the collection of that moment.
\<close>

definition addImages ::
  "(string \<Rightarrow> string) \<Rightarrow> (string \<Rightarrow> nat option) \<Rightarrow> (nat \<Rightarrow> string) \<Rightarrow> Action list
   \<Rightarrow> string list \<Rightarrow> World \<Rightarrow> World" where
  "addImages detectImageFormat fileInformation tempId during filePaths w =
     (let existingPaths = set (map path (images w));
          uniqueFilePaths = filter (\<lambda>p. p \<notin> existingPaths) filePaths
      in if uniqueFilePaths = [] then w
         else
           (let newImages =
                  map (\<lambda>(k, filePath). newImage detectImageFormat fileInformation (tempId k) filePath)
                      (enumerate 0 uniqueFilePaths);
                w1 = performAll during (emit (map InvokeGetFileInformation uniqueFilePaths) w);
                n = length uniqueFilePaths;
                plural = (if n > 1 then ''s'' else [])
            in emit [ToastSuccess (digitsOf n @ '' image'' @ plural @ '' ajout''
                                     @ [CHR 0xC3, CHR 0xA9] @ ''e'' @ plural)]
                 (appendImages newImages w1)))"

section \<open>Observing the store\<close>

text \<open>
  What the properties below look at. The \<open>view\<close> of an id is what the collection
  holds under that id: the status, the compressed size and the output path of every
  record with the id, in the order of the collection.
\<close>

type_synonym View = "ImageStatus \<times> nat option \<times> string option"

definition matching :: "string \<Rightarrow> World \<Rightarrow> ImageEntity list" where
  "matching i w = filter (\<lambda>x. id_of x = i) (images w)"

definition core :: "ImageEntity \<Rightarrow> View" where
  "core x = (status x, compressedSize x, outputPath x)"

definition view :: "string \<Rightarrow> World \<Rightarrow> View list" where
  "view i w = map core (matching i w)"

text \<open>
  \<open>St S w V J P\<close>: in the state \<open>w\<close> every id of \<open>S\<close> has the view
  \<open>V\<close> gives it, the journal is \<open>J\<close> and the guard is \<open>P\<close>.
\<close>

definition St :: "string list \<Rightarrow> World \<Rightarrow> (string \<Rightarrow> View list) \<Rightarrow> Effect list \<Rightarrow> bool \<Rightarrow> bool" where
  "St S w V J P \<longleftrightarrow> (\<forall>j\<in>set S. view j w = V j) \<and> journal w = J \<and> isProcessing w = P"

text \<open>
  An action that runs during a wait is quiet for the ids \<open>S\<close> of a snapshot when it
  leaves the status of the records with these ids alone and does not bring in a record
  with one of these ids: it may add images with other ids, remove images with other ids,
  write the progress, change the settings, and deliver backend events of every stage but
  \<^verbatim>\<open>Error\<close>. Clearing the collection and resetting the images in processing are
  not quiet.
\<close>

fun quiet :: "string list \<Rightarrow> Action \<Rightarrow> bool" where
  "quiet S (AddImagesSet newImages) = list_all (\<lambda>x. id_of x \<notin> set S) newImages"
| "quiet S (RemoveImage imageId) = (imageId \<notin> set S)"
| "quiet S ClearImages = False"
| "quiet S ResetProcessingImages = False"
| "quiet S (SetCompressionSettings q k) = True"
| "quiet S ToggleWebPConversion = True"
| "quiet S ToggleLossyMode = True"
| "quiet S (SetQuality q) = True"
| "quiet S (UpdateImageProgress imageId p) = True"
| "quiet S (BackendEvent ev) = (stage ev \<noteq> StageError)"
| "quiet S (InitializeProgressListener listenOk) = True"

definition quietOutcome :: "string list \<Rightarrow> Outcome \<Rightarrow> bool" where
  "quietOutcome S oc \<longleftrightarrow>
     list_all (quiet S) (whileProgressStart oc) \<and> list_all (quiet S) (whileCompress oc)
     \<and> list_all (quiet S) (whileRecordWithTime oc) \<and> list_all (quiet S) (whileRecord oc)"

text \<open>
  The result of the backend for an image, when the session started and the reply has the
  success flag and a result. Then, from the words of section 4.3 of the specification,
  the journal that one image of the snapshot is to leave: the change to processing and
  the start of the session, the call of \<^verbatim>\<open>compress_image\<close>, and the entries of
  the success, of the failure, or of a rejection.
\<close>

definition succeeded :: "Outcome \<Rightarrow> CompressResult option" where
  "succeeded oc =
     (case progressStartReply oc of
        Some e \<Rightarrow> None
      | None \<Rightarrow>
          (case compressReply oc of
             Inl e \<Rightarrow> None
           | Inr response \<Rightarrow> (if success response then result response else None)))"

definition telemetrySegment ::
  "CompressionSettings \<Rightarrow> Outcome \<Rightarrow> ImageEntity \<Rightarrow> CompressResult \<Rightarrow> Effect list" where
  "telemetrySegment cs oc img res =
     InvokeRecordWithTime (toUpperCase (image_format img))
        (if keepOriginalFormat cs then toUpperCase (image_format img) else ''WEBP'')
        (originalSize img) (compressed_size res) (compressionTimeMs oc) ''plume-v0.1.0''
     # (case recordWithTimeReply oc of
          None \<Rightarrow> []
        | Some e \<Rightarrow>
            [InvokeRecord (toUpperCase (image_format img))
               (if keepOriginalFormat cs then toUpperCase (image_format img) else ''WEBP'')
               (originalSize img) (compressed_size res) ''plume-v0.1.0''])"

definition failureSegment :: "ImageEntity \<Rightarrow> CompressImageResponse \<Rightarrow> Effect list" where
  "failureSegment img response =
     [ErrorImageProgress (id_of img)
        (case error response of
           None \<Rightarrow> ''Compression failed''
         | Some e \<Rightarrow> (if e = [] then ''Compression failed'' else e)),
      StatusChange (id_of img) Processing Error None,
      ToastError (''Erreur compression '' @ name img @ '': '' @
        (case error response of None \<Rightarrow> ''undefined'' | Some e \<Rightarrow> e))]"

definition catchSegment :: "ImageEntity \<Rightarrow> exn \<Rightarrow> Effect list" where
  "catchSegment img err =
     [ErrorImageProgress (id_of img) (exn_text err),
      StatusChange (id_of img) Processing Error None,
      ToastError (''Erreur compression '' @ name img @ '': '' @ exn_text err)]"

definition segment :: "CompressionSettings \<Rightarrow> Outcome \<Rightarrow> ImageEntity \<Rightarrow> Effect list" where
  "segment cs oc img =
     [StatusChange (id_of img) Pending Processing (Some 0),
      StartSmartProgress (id_of img) (image_format img)
        (if keepOriginalFormat cs then image_format img else ''webp'')
        (originalSize img) (qualitySetting cs)]
     @ (case progressStartReply oc of
          Some e \<Rightarrow> catchSegment img e
        | None \<Rightarrow>
            InvokeCompressImage (compressRequest cs img) (id_of img)
            # (case compressReply oc of
                 Inl e \<Rightarrow> catchSegment img e
               | Inr response \<Rightarrow>
                   (case result response of
                      Some res \<Rightarrow>
                        (if success response
                         then [CompleteImageProgress (id_of img),
                               StatusChange (id_of img) Processing Completed None]
                              @ telemetrySegment cs oc img res
                         else failureSegment img response)
                    | None \<Rightarrow> failureSegment img response)))"

definition finalView :: "Outcome \<Rightarrow> View \<Rightarrow> View" where
  "finalView oc v =
     (case succeeded oc of
        Some res \<Rightarrow> (Completed, Some (compressed_size res), Some (output_path res))
      | None \<Rightarrow> (Error, fst (snd v), snd (snd v)))"

text \<open>The journal and the views that a whole snapshot is to leave, image after image.\<close>

fun expected ::
  "CompressionSettings \<Rightarrow> (nat \<Rightarrow> Outcome) \<Rightarrow> nat \<Rightarrow> ImageEntity list \<Rightarrow> Effect list" where
  "expected cs script k [] = []"
| "expected cs script k (img # rest) = segment cs (script k) img @ expected cs script (Suc k) rest"

fun finalViews ::
  "(nat \<Rightarrow> Outcome) \<Rightarrow> nat \<Rightarrow> ImageEntity list \<Rightarrow> (string \<Rightarrow> View list) \<Rightarrow> (string \<Rightarrow> View list)" where
  "finalViews script k [] V = V"
| "finalViews script k (img # rest) V =
     finalViews script (Suc k) rest (V(id_of img := map (finalView (script k)) (V (id_of img))))"

text \<open>
  Projections of the journal: the status changes together with the calls of
  \<^verbatim>\<open>compress_image\<close>; the two recording calls; the ids that went from pending to
  processing; the calls of \<^verbatim>\<open>compress_image\<close> with their requests.
\<close>

fun isOrchestration :: "Effect \<Rightarrow> bool" where
  "isOrchestration (StatusChange i a b p) = True"
| "isOrchestration (InvokeCompressImage r i) = True"
| "isOrchestration _ = False"

definition orchestration :: "Effect list \<Rightarrow> Effect list" where
  "orchestration J = filter isOrchestration J"



fun startedId :: "Effect \<Rightarrow> string list" where
  "startedId (StatusChange i a b p) = (if a = Pending \<and> b = Processing then [i] else [])"
| "startedId _ = []"

definition processingStarts :: "Effect list \<Rightarrow> string list" where
  "processingStarts J = concat (map startedId J)"

fun compressCall :: "Effect \<Rightarrow> (CompressRequest \<times> string) list" where
  "compressCall (InvokeCompressImage r i) = [(r, i)]"
| "compressCall _ = []"

definition compressCalls :: "Effect list \<Rightarrow> (CompressRequest \<times> string) list" where
  "compressCalls J = concat (map compressCall J)"

definition finalStatus :: "Outcome \<Rightarrow> ImageStatus" where
  "finalStatus oc = (case succeeded oc of Some res \<Rightarrow> Completed | None \<Rightarrow> Error)"

section \<open>Example states\<close>

text \<open>
  A collection of three images, of which \<open>a\<close> and \<open>c\<close> are pending. In
  \<open>quietScript\<close> the backend compresses the first image of the snapshot while an image
  is added, an event arrives and the settings are changed, both recording calls fail, and
  the second image fails. In \<open>racingScript\<close> the backend sends an event of stage
  \<^verbatim>\<open>Error\<close> for the first image before its reply, a failure, arrives.
\<close>

definition demoImage :: "string \<Rightarrow> string \<Rightarrow> ImageStatus \<Rightarrow> ImageEntity" where
  "demoImage i f s =
     \<lparr>id_of = i, name = i, path = ''/p/'' @ i, originalSize = 1000,
      image_format = f, preview = ''asset://localhost//p/'' @ i, status = s,
      progress = (if s = Completed then 100 else 0),
      compressedSize = (if s = Completed then Some 400 else None),
      outputPath = (if s = Completed then Some (''/o/'' @ i) else None),
      estimatedCompression =
        \<lparr>percent = 65, ratio = 35 / 100, confidence = 1 / 2, sample_count = 10\<rparr>\<rparr>"

definition demoSettings :: CompressionSettings where
  "demoSettings = \<lparr>qualitySetting = 75, keepOriginalFormat = False\<rparr>"

definition demoWorld :: World where
  "demoWorld =
     \<lparr>images = [demoImage ''a'' ''PNG'' Pending, demoImage ''b'' ''JPEG'' Completed,
                demoImage ''c'' ''WEBP'' Pending],
      compressionState = StateIdle, isProcessing = False,
      compressionSettings = demoSettings,
      progressState = Map.empty, sessions = [], listeners = [0], nextHandle = 1, journal = []\<rparr>"

definition demoEvent :: "string \<Rightarrow> Stage \<Rightarrow> CompressionProgressEvent" where
  "demoEvent i s =
     \<lparr>image_id = i, image_name = i, stage = s, event_progress = 1 / 2,
      estimated_time_remaining = None\<rparr>"

definition demoSuccess :: "Action list \<Rightarrow> Outcome" where
  "demoSuccess during =
     \<lparr>progressStartReply = None,
      compressReply = Inr \<lparr>success = True,
                           result = Some \<lparr>compressed_size = 500, output_path = ''/o/a''\<rparr>,
                           error = None\<rparr>,
      compressionTimeMs = 12,
      recordWithTimeReply = Some (Exn ''db''), recordReply = Some (Exn ''db''),
      whileProgressStart = [], whileCompress = during,
      whileRecordWithTime = [], whileRecord = []\<rparr>"

definition demoFailure :: "Action list \<Rightarrow> Outcome" where
  "demoFailure during =
     \<lparr>progressStartReply = None,
      compressReply = Inr \<lparr>success = False, result = None, error = Some ''boom''\<rparr>,
      compressionTimeMs = 7,
      recordWithTimeReply = None, recordReply = None,
      whileProgressStart = [], whileCompress = during,
      whileRecordWithTime = [], whileRecord = []\<rparr>"

definition quietScript :: "nat \<Rightarrow> Outcome" where
  "quietScript k =
     (if k = 0
      then demoSuccess [AddImagesSet [demoImage ''d'' ''PNG'' Pending],
                        BackendEvent (demoEvent ''a'' Compressing),
                        SetQuality 50, ToggleWebPConversion]
      else demoFailure [])"


text \<open>
  In \<open>removingScript\<close> the image \<open>c\<close> is removed from the collection while the
  backend compresses \<open>a\<close>; every reply is a success.
\<close>

definition removingScript :: "nat \<Rightarrow> Outcome" where
  "removingScript k = (if k = 0 then demoSuccess [RemoveImage ''c''] else demoSuccess [])"


text \<open>
  \<open>busyWorld\<close> is the example while a run is in progress; in \<open>activeWorld\<close>
  the image \<open>a\<close> is being compressed.
\<close>

definition busyWorld :: World where
  "busyWorld = demoWorld\<lparr>isProcessing := True, compressionState := StateProcessing\<rparr>"

definition activeWorld :: World where
  "activeWorld =
     busyWorld\<lparr>images := [demoImage ''a'' ''PNG'' Processing, demoImage ''b'' ''JPEG'' Completed]\<rparr>"

text \<open>The progress updates and backend events that carry a given id.\<close>

fun addressedTo :: "string \<Rightarrow> Action \<Rightarrow> bool" where
  "addressedTo i (UpdateImageProgress imageId p) = (imageId = i)"
| "addressedTo i (BackendEvent ev) = (image_id ev = i)"
| "addressedTo i _ = False"

text \<open>The qualities the resolver can return for a source format, over all presets.\<close>

definition resolverQualities :: "string \<Rightarrow> int list" where
  "resolverQualities imageFormat =
     [quality (resolveCompressionParams outputFormat level imageFormat).
        outputFormat \<leftarrow> [Keep, Webp, Jpeg, Png], level \<leftarrow> [Light, Balanced, Aggressive]]"

text \<open>
  Inputs for \<^verbatim>\<open>addImages\<close>: a backend that has no file information, a
  detector that answers PNG, and ids numbered from 0.
\<close>

definition noFileInformation :: "string \<Rightarrow> nat option" where
  "noFileInformation p = None"

definition demoDetect :: "string \<Rightarrow> string" where
  "demoDetect fileName = ''PNG''"

definition demoTempId :: "nat \<Rightarrow> string" where
  "demoTempId k = ''temp_'' @ digitsOf k"

section \<open>Properties of the settings resolver\<close>

text \<open>
  Claim C5. The resolver returns exactly the table of section 4.2 of the specification:
  \<^item> \<open>keep\<close> with a HEIC source takes the jpeg branch (92 / 80 / 60, lossy);
  \<^item> \<open>webp\<close> gives 100 / 80 / 60, lossy unless the level is light, for every source;
  \<^item> \<open>jpeg\<close> gives 92 / 80 / 60, always lossy, for every source;
  \<^item> \<open>png\<close> gives quality 100, not lossy, for every level and source;
  \<^item> \<open>keep\<close> with a WEBP source follows the webp rule, with a JPEG source the jpeg
    rule, and with any other source that is not HEIC gives quality 100, not lossy; the
    wire format is \<open>auto\<close> in the three cases.
\<close>

theorem resolveCompressionParams_table:
  fixes src :: string
  shows
   "resolveCompressionParams Keep Light ''HEIC'' = \<lparr>quality = 92, format = ''jpeg'', lossy = True\<rparr>
  \<and> resolveCompressionParams Keep Balanced ''HEIC'' = \<lparr>quality = 80, format = ''jpeg'', lossy = True\<rparr>
  \<and> resolveCompressionParams Keep Aggressive ''HEIC'' = \<lparr>quality = 60, format = ''jpeg'', lossy = True\<rparr>
  \<and> resolveCompressionParams Webp Light src = \<lparr>quality = 100, format = ''webp'', lossy = False\<rparr>
  \<and> resolveCompressionParams Webp Balanced src = \<lparr>quality = 80, format = ''webp'', lossy = True\<rparr>
  \<and> resolveCompressionParams Webp Aggressive src = \<lparr>quality = 60, format = ''webp'', lossy = True\<rparr>
  \<and> resolveCompressionParams Jpeg Light src = \<lparr>quality = 92, format = ''jpeg'', lossy = True\<rparr>
  \<and> resolveCompressionParams Jpeg Balanced src = \<lparr>quality = 80, format = ''jpeg'', lossy = True\<rparr>
  \<and> resolveCompressionParams Jpeg Aggressive src = \<lparr>quality = 60, format = ''jpeg'', lossy = True\<rparr>
  \<and> resolveCompressionParams Png Light src = \<lparr>quality = 100, format = ''png'', lossy = False\<rparr>
  \<and> resolveCompressionParams Png Balanced src = \<lparr>quality = 100, format = ''png'', lossy = False\<rparr>
  \<and> resolveCompressionParams Png Aggressive src = \<lparr>quality = 100, format = ''png'', lossy = False\<rparr>
  \<and> resolveCompressionParams Keep Light ''WEBP'' = \<lparr>quality = 100, format = ''auto'', lossy = False\<rparr>
  \<and> resolveCompressionParams Keep Balanced ''WEBP'' = \<lparr>quality = 80, format = ''auto'', lossy = True\<rparr>
  \<and> resolveCompressionParams Keep Aggressive ''WEBP'' = \<lparr>quality = 60, format = ''auto'', lossy = True\<rparr>
  \<and> resolveCompressionParams Keep Light ''JPEG'' = \<lparr>quality = 92, format = ''auto'', lossy = True\<rparr>
  \<and> resolveCompressionParams Keep Balanced ''JPEG'' = \<lparr>quality = 80, format = ''auto'', lossy = True\<rparr>
  \<and> resolveCompressionParams Keep Aggressive ''JPEG'' = \<lparr>quality = 60, format = ''auto'', lossy = True\<rparr>
  \<and> (src \<noteq> ''HEIC'' \<and> src \<noteq> ''WEBP'' \<and> src \<noteq> ''JPEG'' \<longrightarrow>
       (\<forall>level. resolveCompressionParams Keep level src
                  = \<lparr>quality = 100, format = ''auto'', lossy = False\<rparr>))"
  by (simp add: resolveCompressionParams_def effectiveFormat_def)

theorem resolveCompressionParams_table_witness:
  "''PNG'' \<noteq> ''HEIC'' \<and> ''PNG'' \<noteq> ''WEBP'' \<and> ''PNG'' \<noteq> ''JPEG''
   \<and> resolveCompressionParams Keep Aggressive ''PNG''
       = \<lparr>quality = 100, format = ''auto'', lossy = False\<rparr>
   \<and> resolveCompressionParams Keep Balanced ''HEIC''
       = \<lparr>quality = 80, format = ''jpeg'', lossy = True\<rparr>
   \<and> resolveCompressionParams Png Light ''PNG''
       = \<lparr>quality = 100, format = ''png'', lossy = False\<rparr>"
  using resolveCompressionParams_table [of "''PNG''"] by simp

section \<open>Writes over the collection\<close>

lemma status_changes_map:
  "status_changes xs (map g xs) =
     map (\<lambda>x. StatusChange (id_of x) (status x) (status (g x))
                 (if status (g x) = Processing then Some (progress (g x)) else None))
         (filter (\<lambda>x. status x \<noteq> status (g x)) xs)"
  by (induction xs) auto

lemma status_changes_same:
  "(\<And>x. x \<in> set xs \<Longrightarrow> status (g x) = status x) \<Longrightarrow> status_changes xs (map g xs) = []"
  by (simp add: status_changes_map)

lemma mapE_total:
  "(\<And>x. x \<in> set xs \<Longrightarrow> f x = Inr (g x)) \<Longrightarrow> mapE f xs = Inr (map g xs)"
  by (induction xs) auto

lemma filter_singleton_map:
  assumes "map h (filter P xs) = [v]"
  obtains x where "filter P xs = [x]" "h x = v"
  using assms by (cases "filter P xs") auto

lemma status_changes_one:
  assumes "map core (filter (\<lambda>x. id_of x = i) xs) = [(s, c, p)]"
    and "\<And>x. id_of x \<noteq> i \<Longrightarrow> g x = x"
    and "\<And>x. id_of x = i \<Longrightarrow> core x = (s, c, p) \<Longrightarrow> status (g x) = s'"
    and "s \<noteq> s'"
    and "\<And>x. id_of x = i \<Longrightarrow> core x = (s, c, p) \<Longrightarrow>
           (if s' = Processing then Some (progress (g x)) else None) = d"
  shows "status_changes xs (map g xs) = [StatusChange i s s' d]"
proof -
  obtain x where x: "filter (\<lambda>x. id_of x = i) xs = [x]" "core x = (s, c, p)"
    using assms(1) by (rule filter_singleton_map)
  have all: "\<And>y. y \<in> set xs \<Longrightarrow> id_of y = i \<Longrightarrow> y = x"
  proof -
    fix y assume "y \<in> set xs" "id_of y = i"
    then have "y \<in> set (filter (\<lambda>x. id_of x = i) xs)" by simp
    then show "y = x" using x(1) by simp
  qed
  have xi: "id_of x = i" "status x = s"
    using x filter_eq_ConsD[OF x(1)] by (auto simp: core_def)
  have "filter (\<lambda>x. status x \<noteq> status (g x)) xs = filter (\<lambda>x. id_of x = i) xs"
  proof (rule filter_cong[OF refl])
    fix y assume y: "y \<in> set xs"
    show "(status y \<noteq> status (g y)) = (id_of y = i)"
    proof (cases "id_of y = i")
      case True
      then have "y = x" using all y by blast
      then show ?thesis using True xi x(2) assms(3,4) by auto
    next
      case False
      then show ?thesis using assms(2) by simp
    qed
  qed
  then show ?thesis
    using x xi assms(3)[OF xi(1) x(2)] assms(5)[OF xi(1) x(2)]
    by (simp add: status_changes_map)
qed

section \<open>What a quiet action keeps\<close>

lemma view_map_images:
  assumes "\<And>x. id_of (g x) = id_of x"
  shows "map core (filter (\<lambda>x. id_of x = j) (map g xs))
         = map (\<lambda>x. core (g x)) (filter (\<lambda>x. id_of x = j) xs)"
  using assms by (induction xs) auto

lemma St_emit: "St S w V J P \<Longrightarrow> St S (emit es w) V (J @ es) P"
  by (simp add: St_def emit_def view_def matching_def)

lemma St_mapImages_same:
  assumes "St S w V J P" and "\<And>x. id_of (g x) = id_of x" and "\<And>x. core (g x) = core x"
  shows "St S (mapImages g w) V J P"
proof -
  have "\<And>x. status (g x) = status x" using assms(3) by (simp add: core_def)
  then have "status_changes (images w) (map g (images w)) = []"
    by (simp add: status_changes_same)
  moreover have "\<And>j. map core (filter (\<lambda>x. id_of x = j) (map g (images w)))
                  = map core (filter (\<lambda>x. id_of x = j) (images w))"
    using assms(2,3) by (simp add: view_map_images)
  ultimately show ?thesis
    using assms(1) by (simp add: St_def mapImages_def setImages_def view_def matching_def)
qed

lemma St_fields:
  assumes "St S w V J P" and "images w' = images w" and "journal w' = journal w"
    and "isProcessing w' = isProcessing w"
  shows "St S w' V J P"
  using assms by (simp add: St_def view_def matching_def)

lemma St_updateImageProgress: "St S w V J P \<Longrightarrow> St S (updateImageProgress i p w) V J P"
proof -
  assume a: "St S w V J P"
  have "St S (mapImages (\<lambda>img. if id_of img = i then updateProgress p img else img) w) V J P"
    by (rule St_mapImages_same[OF a]) (auto simp: updateProgress_def core_def)
  then show ?thesis
    unfolding updateImageProgress_def by (rule St_fields) simp_all
qed

lemma St_onProgressEvent:
  "St S w V J P \<Longrightarrow> stage ev \<noteq> StageError \<Longrightarrow> St S (fst (onProgressEvent ev w)) V J P"
  by (simp add: onProgressEvent_def Let_def St_updateImageProgress)

lemma St_deliver:
  "St S w V J P \<Longrightarrow> stage ev \<noteq> StageError \<Longrightarrow> St S (deliver ls ev w) V J P"
  by (induction ls arbitrary: w) (auto intro: St_onProgressEvent)

lemma St_perform:
  assumes "St S w V J P" and "quiet S a"
  shows "St S (perform a w) V J P"
proof (cases a)
  case (AddImagesSet new)
  have "\<And>j. j \<in> set S \<Longrightarrow> filter (\<lambda>x. id_of x = j) new = []"
    using assms(2) AddImagesSet by (auto simp: list_all_iff filter_empty_conv)
  then show ?thesis
    using assms(1) AddImagesSet
    by (simp add: St_def appendImages_def view_def matching_def)
next
  case (RemoveImage r)
  have "\<And>j. j \<in> set S \<Longrightarrow>
          filter (\<lambda>x. id_of x = j) (filter (\<lambda>img. id_of img \<noteq> r) (images w))
          = filter (\<lambda>x. id_of x = j) (images w)"
    using assms(2) RemoveImage by (auto intro!: filter_cong)
  then show ?thesis
    using assms(1) RemoveImage
    by (simp add: St_def removeImage_def view_def matching_def)
next
  case (BackendEvent ev)
  then show ?thesis
    using assms by (simp add: backendEvent_def St_deliver)
next
  case (UpdateImageProgress i p)
  then show ?thesis using assms by (simp add: St_updateImageProgress)
qed (use assms in \<open>auto simp: St_def view_def matching_def setCompressionSettings_def
      toggleWebPConversion_def toggleLossyMode_def setQuality_def
      initializeProgressListener_def setupListener_def\<close>)

lemma St_performAll:
  "St S w V J P \<Longrightarrow> list_all (quiet S) as \<Longrightarrow> St S (performAll as w) V J P"
  by (induction as arbitrary: w) (auto intro: St_perform)

section \<open>One image of the snapshot\<close>

lemma St_transition:
  assumes st: "St S w V J P" and i: "i \<in> set S" and vi: "V i = [(s, c, p)]"
    and f: "\<And>x. core x = (s, c, p) \<Longrightarrow> f x = Inr (g x)"
    and gid: "\<And>x. id_of (g x) = id_of x"
    and gcore: "\<And>x. core x = (s, c, p) \<Longrightarrow> core (g x) = (s', c', p')"
    and ne: "s \<noteq> s'"
    and gd: "\<And>x. core x = (s, c, p) \<Longrightarrow>
               (if s' = Processing then Some (progress (g x)) else None) = d"
  shows "\<exists>w'. mapImagesE (onImage i f) w = Inr w'
              \<and> St S w' (V(i := [(s', c', p')])) (J @ [StatusChange i s s' d]) P"
proof -
  define G where "G = (\<lambda>x. if id_of x = i \<and> core x = (s, c, p) then g x else x)"
  let ?xs = "images w"
  have vw: "map core (filter (\<lambda>x. id_of x = i) ?xs) = [(s, c, p)]"
    using st i vi by (simp add: St_def view_def matching_def)
  have m: "\<And>x. x \<in> set ?xs \<Longrightarrow> id_of x = i \<Longrightarrow> core x = (s, c, p)"
  proof -
    fix x assume "x \<in> set ?xs" "id_of x = i"
    then have "core x \<in> set (map core (filter (\<lambda>x. id_of x = i) ?xs))" by simp
    then show "core x = (s, c, p)" unfolding vw by simp
  qed
  have Gid: "\<And>x. id_of (G x) = id_of x" by (simp add: G_def gid)
  have e: "mapE (onImage i f) ?xs = Inr (map G ?xs)"
    by (rule mapE_total) (auto simp: onImage_def G_def f dest: m)
  have sc: "status_changes ?xs (map G ?xs) = [StatusChange i s s' d]"
  proof (rule status_changes_one[OF vw _ _ ne])
    show "\<And>x. id_of x \<noteq> i \<Longrightarrow> G x = x" by (simp add: G_def)
    show "\<And>x. id_of x = i \<Longrightarrow> core x = (s, c, p) \<Longrightarrow> status (G x) = s'"
      using gcore ne by (auto simp: G_def core_def)
    show "\<And>x. id_of x = i \<Longrightarrow> core x = (s, c, p) \<Longrightarrow>
            (if s' = Processing then Some (progress (G x)) else None) = d"
    proof -
      fix x assume "id_of x = i" "core x = (s, c, p)"
      then show "(if s' = Processing then Some (progress (G x)) else None) = d"
        using gd[of x] by (auto simp: G_def split: if_splits)
    qed
  qed
  have v1: "map core (filter (\<lambda>x. id_of x = i) (map G ?xs)) = [(s', c', p')]"
  proof -
    have "map core (filter (\<lambda>x. id_of x = i) (map G ?xs))
          = map (\<lambda>x. core (G x)) (filter (\<lambda>x. id_of x = i) ?xs)"
      by (rule view_map_images) (rule Gid)
    also have "\<dots> = map (\<lambda>x. (s', c', p')) (filter (\<lambda>x. id_of x = i) ?xs)"
      by (rule map_cong[OF refl]) (auto simp: G_def gcore dest: m)
    also have "\<dots> = [(s', c', p')]"
      using arg_cong[OF vw, of length] by (cases "filter (\<lambda>x. id_of x = i) ?xs") auto
    finally show ?thesis .
  qed
  have v2: "\<And>j. j \<noteq> i \<Longrightarrow> map core (filter (\<lambda>x. id_of x = j) (map G ?xs))
                         = map core (filter (\<lambda>x. id_of x = j) ?xs)"
  proof -
    fix j assume j: "j \<noteq> i"
    have "map core (filter (\<lambda>x. id_of x = j) (map G ?xs))
          = map (\<lambda>x. core (G x)) (filter (\<lambda>x. id_of x = j) ?xs)"
      by (rule view_map_images) (rule Gid)
    also have "\<dots> = map core (filter (\<lambda>x. id_of x = j) ?xs)"
      by (rule map_cong[OF refl]) (use j in \<open>auto simp: G_def\<close>)
    finally show "map core (filter (\<lambda>x. id_of x = j) (map G ?xs))
                  = map core (filter (\<lambda>x. id_of x = j) ?xs)" .
  qed
  have "St S (setImages (map G ?xs) w) (V(i := [(s', c', p')])) (J @ [StatusChange i s s' d]) P"
    using st sc v1 v2 by (auto simp: St_def setImages_def view_def matching_def)
  then show ?thesis
    by (simp add: mapImagesE_def e)
qed

lemma St_startSmartProgress:
  "St S w V J P \<Longrightarrow>
   St S (startSmartProgress i a b n q r w) V (J @ [StartSmartProgress i a b n q]) P"
  by (cases r) (auto simp: startSmartProgress_def Let_def St_def emit_def view_def matching_def)

lemma St_completeImageProgress:
  assumes "St S w V J P"
  shows "St S (completeImageProgress i w) V (J @ [CompleteImageProgress i]) P"
proof -
  have a: "St S (emit [CompleteImageProgress i] w) V (J @ [CompleteImageProgress i]) P"
    using assms by (rule St_emit)
  have b: "St S (updateImageProgress i 100 (emit [CompleteImageProgress i] w))
             V (J @ [CompleteImageProgress i]) P"
    using a by (rule St_updateImageProgress)
  show ?thesis
    unfolding completeImageProgress_def Let_def
    by (auto intro: a St_fields[OF b])
qed

lemma St_errorImageProgress:
  assumes "St S w V J P"
  shows "St S (errorImageProgress i m w) V (J @ [ErrorImageProgress i m]) P"
proof -
  have a: "St S (emit [ErrorImageProgress i m] w) V (J @ [ErrorImageProgress i m]) P"
    using assms by (rule St_emit)
  show ?thesis
    unfolding errorImageProgress_def Let_def
    by (auto intro: a St_fields[OF a])
qed

lemma St_recordTelemetry:
  assumes "St S w V J P" and "quietOutcome S oc"
  shows "St S (recordTelemetry cs oc img res w) V (J @ telemetrySegment cs oc img res) P"
proof -
  let ?e1 = "InvokeRecordWithTime (toUpperCase (image_format img))
        (if keepOriginalFormat cs then toUpperCase (image_format img) else ''WEBP'')
        (originalSize img) (compressed_size res) (compressionTimeMs oc) ''plume-v0.1.0''"
  let ?w1 = "performAll (whileRecordWithTime oc) (emit [?e1] w)"
  have q: "list_all (quiet S) (whileRecordWithTime oc)" "list_all (quiet S) (whileRecord oc)"
    using assms(2) by (simp_all add: quietOutcome_def)
  have a: "St S ?w1 V (J @ [?e1]) P"
    by (rule St_performAll[OF St_emit[OF assms(1)] q(1)])
  show ?thesis
  proof (cases "recordWithTimeReply oc")
    case None
    then show ?thesis using a by (simp add: recordTelemetry_def telemetrySegment_def)
  next
    case (Some e)
    let ?e2 = "InvokeRecord (toUpperCase (image_format img))
               (if keepOriginalFormat cs then toUpperCase (image_format img) else ''WEBP'')
               (originalSize img) (compressed_size res) ''plume-v0.1.0''"
    have "St S (performAll (whileRecord oc) (emit [?e2] ?w1)) V ((J @ [?e1]) @ [?e2]) P"
      by (rule St_performAll[OF St_emit[OF a] q(2)])
    then show ?thesis using Some by (simp add: recordTelemetry_def telemetrySegment_def)
  qed
qed

lemma St_onSuccess:
  assumes st: "St S w V J P" and i: "id_of img \<in> set S"
    and vi: "V (id_of img) = [(Processing, c, p)]" and q: "quietOutcome S oc"
  shows "\<exists>w'. onSuccess cs oc img res w = (w', None)
          \<and> St S w' (V(id_of img := [(Completed, Some (compressed_size res), Some (output_path res))]))
               (J @ [CompleteImageProgress (id_of img), StatusChange (id_of img) Processing Completed None]
                  @ telemetrySegment cs oc img res) P"
proof -
  let ?i = "id_of img"
  let ?w1 = "completeImageProgress ?i w"
  have a: "St S ?w1 V (J @ [CompleteImageProgress ?i]) P"
    by (rule St_completeImageProgress[OF st])
  obtain w2 where w2: "mapImagesE (onImage ?i (toCompleted (compressed_size res) (output_path res))) ?w1 = Inr w2"
    and b: "St S w2 (V(?i := [(Completed, Some (compressed_size res), Some (output_path res))]))
              ((J @ [CompleteImageProgress ?i]) @ [StatusChange ?i Processing Completed None]) P"
    using St_transition[OF a i vi, of "toCompleted (compressed_size res) (output_path res)"
        "\<lambda>x. x\<lparr>status := Completed, progress := 100,
                compressedSize := Some (compressed_size res), outputPath := Some (output_path res)\<rparr>"
        Completed "Some (compressed_size res)" "Some (output_path res)" None]
    by (auto simp: toCompleted_def core_def)
  have "St S (recordTelemetry cs oc img res w2)
          (V(?i := [(Completed, Some (compressed_size res), Some (output_path res))]))
          (((J @ [CompleteImageProgress ?i]) @ [StatusChange ?i Processing Completed None])
             @ telemetrySegment cs oc img res) P"
    by (rule St_recordTelemetry[OF b q])
  then show ?thesis
    by (simp add: onSuccess_def w2)
qed

lemma St_onFailure:
  assumes st: "St S w V J P" and i: "id_of img \<in> set S"
    and vi: "V (id_of img) = [(Processing, c, p)]"
  shows "\<exists>w'. onFailure img response w = (w', None)
          \<and> St S w' (V(id_of img := [(Error, c, p)])) (J @ failureSegment img response) P"
proof -
  let ?i = "id_of img"
  let ?m = "case error response of None \<Rightarrow> ''Compression failed''
            | Some e \<Rightarrow> (if e = [] then ''Compression failed'' else e)"
  let ?w1 = "errorImageProgress ?i ?m w"
  have a: "St S ?w1 V (J @ [ErrorImageProgress ?i ?m]) P"
    by (rule St_errorImageProgress[OF st])
  obtain w2 where w2: "mapImagesE (onImage ?i toError) ?w1 = Inr w2"
    and b: "St S w2 (V(?i := [(Error, c, p)]))
              ((J @ [ErrorImageProgress ?i ?m]) @ [StatusChange ?i Processing Error None]) P"
    using St_transition[OF a i vi, of toError "\<lambda>x. x\<lparr>status := Error\<rparr>" Error c p None]
    by (auto simp: toError_def core_def)
  show ?thesis
    using St_emit[OF b] by (simp add: onFailure_def w2 failureSegment_def)
qed

lemma St_catchImage:
  assumes st: "St S w V J P" and i: "id_of img \<in> set S"
    and vi: "V (id_of img) = [(Processing, c, p)]"
  shows "\<exists>w'. catchImage img err w = (w', None)
          \<and> St S w' (V(id_of img := [(Error, c, p)])) (J @ catchSegment img err) P"
proof -
  let ?i = "id_of img"
  let ?w1 = "errorImageProgress ?i (exn_text err) w"
  have a: "St S ?w1 V (J @ [ErrorImageProgress ?i (exn_text err)]) P"
    by (rule St_errorImageProgress[OF st])
  obtain w2 where w2: "mapImagesE (onImage ?i toError) ?w1 = Inr w2"
    and b: "St S w2 (V(?i := [(Error, c, p)]))
              ((J @ [ErrorImageProgress ?i (exn_text err)]) @ [StatusChange ?i Processing Error None]) P"
    using St_transition[OF a i vi, of toError "\<lambda>x. x\<lparr>status := Error\<rparr>" Error c p None]
    by (auto simp: toError_def core_def)
  show ?thesis
    using St_emit[OF b] by (simp add: catchImage_def w2 catchSegment_def)
qed

lemma St_processImage:
  assumes st: "St S w V J P" and i: "id_of img \<in> set S"
    and vi: "V (id_of img) = [(Pending, c, p)]" and q: "quietOutcome S oc"
  shows "\<exists>w'. processImage cs oc img w = (w', None)
          \<and> St S w' (V(id_of img := [finalView oc (Pending, c, p)])) (J @ segment cs oc img) P"
proof -
  let ?i = "id_of img"
  let ?V1 = "V(?i := [(Processing, c, p)])"
  let ?start = "StartSmartProgress ?i (image_format img)
        (if keepOriginalFormat cs then image_format img else ''webp'')
        (originalSize img) (qualitySetting cs)"
  let ?J2 = "J @ [StatusChange ?i Pending Processing (Some 0), ?start]"
  have ql: "list_all (quiet S) (whileProgressStart oc)" "list_all (quiet S) (whileCompress oc)"
    using q by (simp_all add: quietOutcome_def)
  obtain w1 where w1: "mapImagesE (onImage ?i (toProcessing 0)) w = Inr w1"
    and s1: "St S w1 ?V1 (J @ [StatusChange ?i Pending Processing (Some 0)]) P"
    using St_transition[OF st i vi, of "toProcessing 0"
        "\<lambda>x. x\<lparr>status := Processing, progress := 0\<rparr>" Processing c p "Some 0"]
    by (auto simp: toProcessing_def core_def)
  define w2 where "w2 = performAll (whileProgressStart oc)
                      (startSmartProgress ?i (image_format img)
                         (if keepOriginalFormat cs then image_format img else ''webp'')
                         (originalSize img) (qualitySetting cs) (progressStartReply oc) w1)"
  have s2: "St S w2 ?V1 ?J2 P"
    unfolding w2_def using St_performAll[OF St_startSmartProgress[OF s1] ql(1)] by simp
  have v1: "?V1 ?i = [(Processing, c, p)]" by simp
  show ?thesis
  proof (cases "progressStartReply oc")
    case (Some e)
    have t: "tryImage cs oc img w = (w2, Some e)"
      by (simp add: tryImage_def w1 Some w2_def)
    obtain w' where "catchImage img e w2 = (w', None)"
      and "St S w' (?V1(?i := [(Error, c, p)])) (?J2 @ catchSegment img e) P"
      using St_catchImage[OF s2 i v1] by blast
    then show ?thesis
      using Some by (simp add: processImage_def t segment_def finalView_def succeeded_def)
  next
    case None
    define w3 where "w3 = performAll (whileCompress oc)
                       (emit [InvokeCompressImage (compressRequest cs img) ?i] w2)"
    let ?J3 = "?J2 @ [InvokeCompressImage (compressRequest cs img) ?i]"
    have s3: "St S w3 ?V1 ?J3 P"
      unfolding w3_def by (rule St_performAll[OF St_emit[OF s2] ql(2)])
    show ?thesis
    proof (cases "compressReply oc")
      case (Inl e)
      have t: "tryImage cs oc img w = (w3, Some e)"
        by (simp add: tryImage_def w1 None Inl w2_def w3_def)
      obtain w' where "catchImage img e w3 = (w', None)"
        and "St S w' (?V1(?i := [(Error, c, p)])) (?J3 @ catchSegment img e) P"
        using St_catchImage[OF s3 i v1] by blast
      then show ?thesis
        using None Inl by (simp add: processImage_def t segment_def finalView_def succeeded_def)
    next
      case (Inr response)
      have fail: ?thesis if t: "tryImage cs oc img w = onFailure img response w3"
        and su: "succeeded oc = None"
        and seg: "J @ segment cs oc img = ?J3 @ failureSegment img response"
      proof -
        obtain w' where "onFailure img response w3 = (w', None)"
          and "St S w' (?V1(?i := [(Error, c, p)])) (?J3 @ failureSegment img response) P"
          using St_onFailure[OF s3 i v1] by blast
        then show ?thesis
          using su seg by (simp add: processImage_def t finalView_def)
      qed
      show ?thesis
      proof (cases "result response")
        case rn: None
        show ?thesis
        proof (rule fail)
          show "tryImage cs oc img w = onFailure img response w3"
            by (simp add: tryImage_def w1 None Inr rn w2_def w3_def)
          show "succeeded oc = None"
            using None Inr rn by (simp add: succeeded_def)
          show "J @ segment cs oc img = ?J3 @ failureSegment img response"
            using None Inr rn by (simp add: segment_def)
        qed
      next
        case rs: (Some res)
        show ?thesis
        proof (cases "success response")
          case False
          show ?thesis
          proof (rule fail)
            show "tryImage cs oc img w = onFailure img response w3"
              using False by (simp add: tryImage_def w1 None Inr rs w2_def w3_def)
            show "succeeded oc = None"
              using None Inr rs False by (simp add: succeeded_def)
            show "J @ segment cs oc img = ?J3 @ failureSegment img response"
              using None Inr rs False by (simp add: segment_def)
          qed
        next
          case True
          have t: "tryImage cs oc img w = onSuccess cs oc img res w3"
            using True by (simp add: tryImage_def w1 None Inr rs w2_def w3_def)
          obtain w' where "onSuccess cs oc img res w3 = (w', None)"
            and "St S w' (?V1(?i := [(Completed, Some (compressed_size res), Some (output_path res))]))
                  (?J3 @ [CompleteImageProgress ?i, StatusChange ?i Processing Completed None]
                     @ telemetrySegment cs oc img res) P"
            using St_onSuccess[OF s3 i v1 q] by blast
          then show ?thesis
            using None Inr rs True
            by (simp add: processImage_def t segment_def finalView_def succeeded_def)
        qed
      qed
    qed
  qed
qed

section \<open>The loop and the whole run\<close>

lemma St_processAll:
  assumes "St S w V J P" and "distinct (map id_of imgs)" and "id_of ` set imgs \<subseteq> set S"
    and "\<And>img. img \<in> set imgs \<Longrightarrow> \<exists>c p. V (id_of img) = [(Pending, c, p)]"
    and "\<And>k. quietOutcome S (script k)"
  shows "\<exists>w'. processAll cs script k imgs w = (w', None)
          \<and> St S w' (finalViews script k imgs V) (J @ expected cs script k imgs) P"
  using assms
proof (induction imgs arbitrary: w V J k)
  case Nil
  then show ?case by simp
next
  case (Cons img rest)
  obtain c p where vi: "V (id_of img) = [(Pending, c, p)]"
    using Cons.prems(4)[of img] by auto
  have i: "id_of img \<in> set S" using Cons.prems(3) by auto
  let ?V1 = "V(id_of img := [finalView (script k) (Pending, c, p)])"
  obtain w1 where p1: "processImage cs (script k) img w = (w1, None)"
    and s1: "St S w1 ?V1 (J @ segment cs (script k) img) P"
    using St_processImage[OF Cons.prems(1) i vi Cons.prems(5)[of k]] by blast
  have r: "\<And>x. x \<in> set rest \<Longrightarrow> \<exists>c p. ?V1 (id_of x) = [(Pending, c, p)]"
  proof -
    fix x assume x: "x \<in> set rest"
    have "id_of img \<notin> id_of ` set rest" using Cons.prems(2) by simp
    then have "id_of x \<noteq> id_of img" using x by (metis imageI)
    then show "\<exists>c p. ?V1 (id_of x) = [(Pending, c, p)]"
      using Cons.prems(4)[of x] x by simp
  qed
  have "\<exists>w'. processAll cs script (Suc k) rest w1 = (w', None)
          \<and> St S w' (finalViews script (Suc k) rest ?V1)
               ((J @ segment cs (script k) img) @ expected cs script (Suc k) rest) P"
    by (rule Cons.IH[OF s1 _ _ r Cons.prems(5)]) (use Cons.prems(2,3) in auto)
  then show ?case
    using p1 vi by simp
qed

lemma finalViews_other:
  "j \<notin> id_of ` set imgs \<Longrightarrow> finalViews script k imgs V j = V j"
  by (induction imgs arbitrary: k V) auto

lemma finalViews_nth:
  "distinct (map id_of imgs) \<Longrightarrow> n < length imgs \<Longrightarrow>
   finalViews script k imgs V (id_of (imgs ! n))
     = map (finalView (script (k + n))) (V (id_of (imgs ! n)))"
proof (induction imgs arbitrary: k V n)
  case Nil
  then show ?case by simp
next
  case (Cons img rest)
  show ?case
  proof (cases n)
    case 0
    have "id_of img \<notin> id_of ` set rest" using Cons.prems(1) by auto
    then show ?thesis using 0 by (simp add: finalViews_other)
  next
    case (Suc m)
    then have m: "m < length rest" using Cons.prems(2) by simp
    have "id_of img \<notin> id_of ` set rest" using Cons.prems(1) by simp
    then have "id_of (rest ! m) \<noteq> id_of img"
      using nth_mem[OF m] by (metis imageI)
    then show ?thesis
      using Suc Cons.IH[of m "Suc k"] Cons.prems(1) m by simp
  qed
qed

lemma filter_distinct_id:
  "distinct (map f xs) \<Longrightarrow> x \<in> set xs \<Longrightarrow> filter (\<lambda>y. f y = f x) xs = [x]"
proof (induction xs)
  case Nil
  then show ?case by simp
next
  case (Cons a xs)
  show ?case
  proof (cases "x = a")
    case True
    have "f a \<notin> f ` set xs" using Cons.prems(1) by simp
    then have "\<forall>y\<in>set xs. f y \<noteq> f a" by (metis imageI)
    then have "filter (\<lambda>y. f y = f a) xs = []"
      by (simp add: filter_empty_conv)
    then show ?thesis using True by simp
  next
    case False
    then have x: "x \<in> set xs" using Cons.prems(2) by simp
    have "f a \<notin> f ` set xs" using Cons.prems(1) by simp
    then have ne: "f a \<noteq> f x" using x by (metis imageI)
    show ?thesis using Cons.IH[OF _ x] Cons.prems(1) ne by simp
  qed
qed

lemma startCompression_quiet:
  assumes np: "\<not> isProcessing w" and d: "distinct (map id_of (images w))"
    and q: "\<And>k. quietOutcome (map id_of (pendingImages w)) (script k)"
  shows "snd (startCompression script w) = None"
    and "journal (fst (startCompression script w))
         = journal w @ expected (compressionSettings w) script 0 (pendingImages w)"
    and "\<And>n. n < length (pendingImages w) \<Longrightarrow>
           view (id_of (pendingImages w ! n)) (fst (startCompression script w))
           = [finalView (script n) (core (pendingImages w ! n))]"
    and "compressionState (fst (startCompression script w))
         = (if pendingImages w = [] then compressionState w else StateCompleted)"
proof -
  let ?S = "map id_of (pendingImages w)"
  let ?w0 = "w\<lparr>isProcessing := True, compressionState := StateProcessing\<rparr>"
  let ?V = "\<lambda>j. view j w"
  have dp: "distinct ?S"
    using d by (simp add: pendingImages_def distinct_map_filter)
  have vw: "\<And>x. x \<in> set (images w) \<Longrightarrow> view (id_of x) w = [core x]"
    using d by (simp add: view_def matching_def filter_distinct_id)
  have pend: "\<And>img. img \<in> set (pendingImages w) \<Longrightarrow> \<exists>c p. ?V (id_of img) = [(Pending, c, p)]"
    using vw by (auto simp: pendingImages_def isPending_def core_def)
  have s0: "St ?S ?w0 ?V (journal w) True"
    by (simp add: St_def view_def matching_def)
  obtain w1 where pa: "processAll (compressionSettings w) script 0 (pendingImages w) ?w0 = (w1, None)"
    and s1: "St ?S w1 (finalViews script 0 (pendingImages w) ?V)
               (journal w @ expected (compressionSettings w) script 0 (pendingImages w)) True"
    using St_processAll[where script = script and k = 0 and cs = "compressionSettings w",
        OF s0 dp _ pend q] by auto
  have res: "startCompression script w =
               (if pendingImages w = [] then (w, None)
                else (w1\<lparr>compressionState := StateCompleted, isProcessing := False\<rparr>, None))"
    using np by (simp add: startCompression_def pa)
  show "snd (startCompression script w) = None" by (simp add: res)
  show "journal (fst (startCompression script w))
         = journal w @ expected (compressionSettings w) script 0 (pendingImages w)"
    using s1 by (auto simp: res St_def)
  show "compressionState (fst (startCompression script w))
         = (if pendingImages w = [] then compressionState w else StateCompleted)"
    by (simp add: res)
  show "view (id_of (pendingImages w ! n)) (fst (startCompression script w))
           = [finalView (script n) (core (pendingImages w ! n))]"
    if n: "n < length (pendingImages w)" for n
  proof -
    have ne: "pendingImages w \<noteq> []" using n by auto
    have mem: "pendingImages w ! n \<in> set (images w)"
      using n nth_mem[OF n] by (auto simp: pendingImages_def)
    have "view (id_of (pendingImages w ! n)) w1
          = finalViews script 0 (pendingImages w) ?V (id_of (pendingImages w ! n))"
      using s1 nth_mem[OF n] by (simp add: St_def)
    also have "\<dots> = map (finalView (script n)) (view (id_of (pendingImages w ! n)) w)"
      using finalViews_nth[OF _ n, of script 0 ?V] dp by (simp add: distinct_map)
    also have "\<dots> = [finalView (script n) (core (pendingImages w ! n))]"
      by (simp add: vw[OF mem])
    finally show ?thesis
      using ne by (simp add: res view_def matching_def)
  qed
qed

section \<open>Projections of the expected journal\<close>

lemma orchestration_segment:
  "orchestration (segment cs oc img)
   = StatusChange (id_of img) Pending Processing (Some 0)
     # (if progressStartReply oc = None
        then [InvokeCompressImage (compressRequest cs img) (id_of img)] else [])
     @ [StatusChange (id_of img) Processing (finalStatus oc) None]"
  by (auto simp: orchestration_def segment_def finalStatus_def succeeded_def catchSegment_def
        failureSegment_def telemetrySegment_def split: sum.splits option.splits)

lemma orchestration_expected:
  "orchestration (expected cs script k imgs)
   = concat (map (\<lambda>(n, img).
        StatusChange (id_of img) Pending Processing (Some 0)
        # (if progressStartReply (script n) = None
           then [InvokeCompressImage (compressRequest cs img) (id_of img)] else [])
        @ [StatusChange (id_of img) Processing (finalStatus (script n)) None])
       (enumerate k imgs))"
proof (induction imgs arbitrary: k)
  case Nil
  then show ?case by (simp add: orchestration_def)
next
  case (Cons img rest)
  have "orchestration (expected cs script k (img # rest))
        = orchestration (segment cs (script k) img) @ orchestration (expected cs script (Suc k) rest)"
    by (simp add: orchestration_def)
  then show ?case
    using Cons by (simp add: orchestration_segment)
qed





section \<open>Properties of startCompression\<close>


text \<open>
  Claim C1, as amended. Take a call of \<^verbatim>\<open>startCompression\<close> that passes the
  guard, in a collection with distinct ids, where nothing that runs during the waits of the
  run removes an image of the snapshot, clears the collection, resets the images in
  processing, adds an image under an id of the snapshot, or delivers an event of stage
  \<^verbatim>\<open>Error\<close>. Then the status changes and the calls of
  \<^verbatim>\<open>compress_image\<close> that the run adds to the journal are, for each image that
  is pending when the run starts and in the order of the collection: the change from
  pending to processing, which starts the record with the progress 0; the call of
  \<^verbatim>\<open>compress_image\<close> for the image, when its progress session started, and no
  call when it did not; the change from processing to completed or to error. The entries
  of an image all come before those of the next, and images added during the run leave no
  entry.
\<close>

theorem startCompression_snapshot_in_order:
  assumes "\<not> isProcessing w" and "distinct (map id_of (images w))"
    and "\<forall>k. quietOutcome (map id_of (pendingImages w)) (script k)"
  shows "orchestration (journal (fst (startCompression script w)))
         = orchestration (journal w)
           @ concat (map (\<lambda>(k, img).
               StatusChange (id_of img) Pending Processing (Some 0)
               # (if progressStartReply (script k) = None
                  then [InvokeCompressImage (compressRequest (compressionSettings w) img)
                          (id_of img)]
                  else [])
               @ [StatusChange (id_of img) Processing (finalStatus (script k)) None])
              (enumerate 0 (pendingImages w)))"
proof -
  have "journal (fst (startCompression script w))
         = journal w @ expected (compressionSettings w) script 0 (pendingImages w)"
    using assms by (intro startCompression_quiet(2)) auto
  then have "orchestration (journal (fst (startCompression script w)))
         = orchestration (journal w)
           @ orchestration (expected (compressionSettings w) script 0 (pendingImages w))"
    by (simp add: orchestration_def)
  then show ?thesis
    by (simp only: orchestration_expected)
qed



text \<open>
  Claim C2. A call of \<^verbatim>\<open>startCompression\<close> while the flag
  \<^verbatim>\<open>isProcessing\<close> is set returns at once: no exception, and the state of the
  store, the sessions and the journal are what they were.
\<close>

theorem startCompression_while_running:
  "isProcessing w \<Longrightarrow> startCompression script w = (w, None)"
  by (simp add: startCompression_def)

section \<open>The requests of a run, whatever happens during it\<close>

lemma compressCalls_append [simp]:
  "compressCalls (xs @ ys) = compressCalls xs @ compressCalls ys"
  by (simp add: compressCalls_def)

lemma compressCalls_Nil [simp]: "compressCalls [] = []"
  by (simp add: compressCalls_def)

lemma compressCalls_Cons [simp]: "compressCalls (e # es) = compressCall e @ compressCalls es"
  by (simp add: compressCalls_def)

lemma calls_emit [simp]:
  "compressCalls (journal (emit es w)) = compressCalls (journal w) @ compressCalls es"
  by (simp add: emit_def)

lemma compressCalls_status_changes [simp]: "compressCalls (status_changes xs ys) = []"
  by (induction xs ys rule: status_changes.induct) auto

lemma calls_setImages [simp]:
  "compressCalls (journal (setImages imgs w)) = compressCalls (journal w)"
  by (simp add: setImages_def)

lemma calls_mapImagesE:
  "mapImagesE f w = Inr w' \<Longrightarrow> compressCalls (journal w') = compressCalls (journal w)"
  by (auto simp: mapImagesE_def split: sum.splits)

lemma calls_updateImageProgress [simp]:
  "compressCalls (journal (updateImageProgress i p w)) = compressCalls (journal w)"
  by (simp add: updateImageProgress_def mapImages_def)

lemma calls_onProgressEvent [simp]:
  "compressCalls (journal (fst (onProgressEvent ev w))) = compressCalls (journal w)"
  by (auto simp: onProgressEvent_def Let_def split: sum.splits dest: calls_mapImagesE)

lemma calls_deliver [simp]:
  "compressCalls (journal (deliver ls ev w)) = compressCalls (journal w)"
  by (induction ls arbitrary: w) auto

lemma calls_perform [simp]:
  "compressCalls (journal (perform a w)) = compressCalls (journal w)"
  by (cases a)
     (auto simp: appendImages_def removeImage_def clearImages_def resetProcessingImages_def
        mapImages_def setCompressionSettings_def toggleWebPConversion_def toggleLossyMode_def
        setQuality_def backendEvent_def initializeProgressListener_def setupListener_def)

lemma calls_performAll [simp]:
  "compressCalls (journal (performAll as w)) = compressCalls (journal w)"
  by (induction as arbitrary: w) auto

lemma calls_startSmartProgress [simp]:
  "compressCalls (journal (startSmartProgress i a b n q r w)) = compressCalls (journal w)"
  by (cases r) (auto simp: startSmartProgress_def Let_def)

lemma calls_completeImageProgress [simp]:
  "compressCalls (journal (completeImageProgress i w)) = compressCalls (journal w)"
  by (auto simp: completeImageProgress_def Let_def)

lemma calls_errorImageProgress [simp]:
  "compressCalls (journal (errorImageProgress i m w)) = compressCalls (journal w)"
  by (auto simp: errorImageProgress_def Let_def)

lemma calls_recordTelemetry [simp]:
  "compressCalls (journal (recordTelemetry cs oc img res w)) = compressCalls (journal w)"
  by (auto simp: recordTelemetry_def Let_def split: option.splits)

lemma calls_onSuccess [simp]:
  "compressCalls (journal (fst (onSuccess cs oc img res w))) = compressCalls (journal w)"
  by (auto simp: onSuccess_def Let_def split: sum.splits dest: calls_mapImagesE)

lemma calls_onFailure [simp]:
  "compressCalls (journal (fst (onFailure img response w))) = compressCalls (journal w)"
  by (auto simp: onFailure_def Let_def split: sum.splits dest!: calls_mapImagesE)

lemma calls_catchImage [simp]:
  "compressCalls (journal (fst (catchImage img err w))) = compressCalls (journal w)"
  by (auto simp: catchImage_def Let_def split: sum.splits dest!: calls_mapImagesE)

lemma calls_tryImage:
  "\<exists>b. compressCalls (journal (fst (tryImage cs oc img w)))
        = compressCalls (journal w)
          @ (if b then [(compressRequest cs img, id_of img)] else [])"
proof (cases "mapImagesE (onImage (id_of img) (toProcessing 0)) w")
  case (Inl e)
  then have "compressCalls (journal (fst (tryImage cs oc img w))) = compressCalls (journal w) @ []"
    by (simp add: tryImage_def)
  then show ?thesis by (intro exI[of _ False]) simp
next
  case (Inr w1)
  note c1 = calls_mapImagesE[OF Inr]
  show ?thesis
  proof (cases "progressStartReply oc")
    case (Some e)
    then have "compressCalls (journal (fst (tryImage cs oc img w))) = compressCalls (journal w) @ []"
      by (simp add: tryImage_def Inr c1)
    then show ?thesis by (intro exI[of _ False]) simp
  next
    case None
    have "compressCalls (journal (fst (tryImage cs oc img w)))
          = compressCalls (journal w) @ [(compressRequest cs img, id_of img)]"
      by (auto simp: tryImage_def Inr None c1 Let_def split: sum.splits option.splits)
    then show ?thesis by (intro exI[of _ True]) simp
  qed
qed

lemma calls_processImage:
  "\<exists>b. compressCalls (journal (fst (processImage cs oc img w)))
        = compressCalls (journal w)
          @ (if b then [(compressRequest cs img, id_of img)] else [])"
proof -
  obtain b where b: "compressCalls (journal (fst (tryImage cs oc img w)))
        = compressCalls (journal w) @ (if b then [(compressRequest cs img, id_of img)] else [])"
    using calls_tryImage by blast
  have "compressCalls (journal (fst (processImage cs oc img w)))
        = compressCalls (journal (fst (tryImage cs oc img w)))"
  proof (cases "tryImage cs oc img w")
    case (Pair w1 r)
    then show ?thesis
    proof (cases r)
      case None
      then show ?thesis using Pair by (simp add: processImage_def)
    next
      case (Some err)
      have "compressCalls (journal (fst (catchImage img err w1))) = compressCalls (journal w1)"
        by simp
      then show ?thesis using Pair Some by (simp add: processImage_def)
    qed
  qed
  then show ?thesis using b by auto
qed

lemma calls_processAll:
  "\<exists>sub. subseq sub imgs
        \<and> compressCalls (journal (fst (processAll cs script k imgs w)))
          = compressCalls (journal w) @ map (\<lambda>img. (compressRequest cs img, id_of img)) sub"
proof (induction imgs arbitrary: k w)
  case Nil
  then show ?case by simp
next
  case (Cons img rest)
  obtain b where b: "compressCalls (journal (fst (processImage cs (script k) img w)))
        = compressCalls (journal w) @ (if b then [(compressRequest cs img, id_of img)] else [])"
    using calls_processImage by blast
  obtain w1 r where p: "processImage cs (script k) img w = (w1, r)" by (cases "processImage cs (script k) img w")
  show ?case
  proof (cases r)
    case (Some e)
    have "compressCalls (journal (fst (processAll cs script k (img # rest) w)))
          = compressCalls (journal w)
            @ map (\<lambda>img. (compressRequest cs img, id_of img)) (if b then [img] else [])"
      using b p Some by simp
    moreover have "subseq (if b then [img] else []) (img # rest)" by simp
    ultimately show ?thesis by blast
  next
    case None
    obtain sub where sub: "subseq sub rest"
      "compressCalls (journal (fst (processAll cs script (Suc k) rest w1)))
          = compressCalls (journal w1) @ map (\<lambda>img. (compressRequest cs img, id_of img)) sub"
      using Cons.IH by blast
    have "compressCalls (journal (fst (processAll cs script k (img # rest) w)))
          = compressCalls (journal w)
            @ map (\<lambda>img. (compressRequest cs img, id_of img)) ((if b then [img] else []) @ sub)"
      using b p None sub(2) by simp
    moreover have "subseq ((if b then [img] else []) @ sub) (img # rest)"
      using sub(1) by auto
    ultimately show ?thesis by blast
  qed
qed

text \<open>
  Claim C4, as amended. Whatever the backend replies and whatever runs during the waits,
  the calls of \<^verbatim>\<open>compress_image\<close> that a run makes are for images of the
  snapshot, in its order, and the request of each carries the path of the image, the
  quality of the settings as they were when \<^verbatim>\<open>startCompression\<close> was called, and
  the format \<^verbatim>\<open>auto\<close> when \<^verbatim>\<open>keepOriginalFormat\<close> was set then and
  \<^verbatim>\<open>webp\<close> otherwise. The request has no lossy flag and the resolver is not used.
\<close>

theorem compress_requests_use_settings_at_start:
  "\<exists>sub. subseq sub (pendingImages w)
        \<and> compressCalls (journal (fst (startCompression script w)))
          = compressCalls (journal w)
            @ map (\<lambda>img. (\<lparr>file_path = path img,
                             request_quality = qualitySetting (compressionSettings w),
                             request_format =
                               (if keepOriginalFormat (compressionSettings w)
                                then ''auto'' else ''webp'')\<rparr>, id_of img)) sub"
proof -
  let ?w0 = "w\<lparr>isProcessing := True, compressionState := StateProcessing\<rparr>"
  obtain sub where sub: "subseq sub (pendingImages w)"
    "compressCalls (journal (fst (processAll (compressionSettings w) script 0 (pendingImages w) ?w0)))
      = compressCalls (journal ?w0)
        @ map (\<lambda>img. (compressRequest (compressionSettings w) img, id_of img)) sub"
    using calls_processAll by blast
  have "compressCalls (journal (fst (startCompression script w)))
        = compressCalls (journal w)
          @ map (\<lambda>img. (compressRequest (compressionSettings w) img, id_of img))
              (if isProcessing w \<or> pendingImages w = [] then [] else sub)"
    using sub(2) by (auto simp: startCompression_def Let_def split: prod.splits option.splits)
  moreover have "subseq (if isProcessing w \<or> pendingImages w = [] then [] else sub) (pendingImages w)"
    using sub(1) by simp
  ultimately show ?thesis
    unfolding compressRequest_def by blast
qed

section \<open>Bounds of the binary64 product\<close>










section \<open>Properties of the listener\<close>








text \<open>
  Claim C8 fails on the code. A second call of \<^verbatim>\<open>initializeProgressListener\<close>
  releases nothing: the subscription of the first call stays, and a second one is added.
\<close>

theorem second_initialize_keeps_first_listener:
  "listeners (initializeProgressListener True (initializeProgressListener True w))
   = listeners w @ [nextHandle w, Suc (nextHandle w)]"
  by (simp add: initializeProgressListener_def setupListener_def)

section \<open>Properties of removeImage and addImages\<close>

lemma map_on_absent_id:
  "i \<notin> id_of ` set xs \<Longrightarrow> map (\<lambda>x. if id_of x = i then g x else x) xs = xs"
  by (induction xs) auto

lemma mapE_on_absent_id:
  "i \<notin> id_of ` set xs \<Longrightarrow> mapE (onImage i f) xs = Inr xs"
  by (induction xs) (auto simp: onImage_def)

lemma status_changes_refl [simp]: "status_changes xs xs = []"
  by (induction xs) auto

lemma updateImageProgress_absent:
  "i \<notin> id_of ` set (images w) \<Longrightarrow>
   updateImageProgress i p w = w\<lparr>progressState := (progressState w)(i \<mapsto> p)\<rparr>"
  by (simp add: updateImageProgress_def mapImages_def setImages_def map_on_absent_id)

lemma onProgressEvent_absent:
  assumes "image_id ev \<notin> id_of ` set (images w)"
  shows "onProgressEvent ev w
         = (w\<lparr>progressState :=
                 (progressState w)(image_id ev \<mapsto> Math_round (binary64 (event_progress ev * 100)))\<rparr>, None)"
  using assms
  by (simp add: onProgressEvent_def Let_def updateImageProgress_absent mapImagesE_def
        mapE_on_absent_id setImages_def)

lemma deliver_absent:
  "image_id ev \<notin> id_of ` set (images w) \<Longrightarrow> images (deliver ls ev w) = images w"
  by (induction ls arbitrary: w) (auto simp: onProgressEvent_absent)

lemma perform_addressed_absent:
  "i \<notin> id_of ` set (images w) \<Longrightarrow> addressedTo i a \<Longrightarrow> images (perform a w) = images w"
  by (cases a) (auto simp: updateImageProgress_absent backendEvent_def deliver_absent)

lemma performAll_addressed_absent:
  "i \<notin> id_of ` set (images w) \<Longrightarrow> list_all (addressedTo i) as \<Longrightarrow>
   images (performAll as w) = images w"
proof (induction as arbitrary: w)
  case Nil
  then show ?case by simp
next
  case (Cons a as)
  have "images (perform a w) = images w"
    using Cons.prems by (simp add: perform_addressed_absent)
  then show ?case
    using Cons by simp
qed

text \<open>
  Claim C9. After \<^verbatim>\<open>removeImage\<close> of an id, the progress updates and backend
  events that carry this id, of every stage and in any number, leave the collection as the
  removal left it: no record with the id comes back, the other records are unchanged, and
  the callback of an event raises nothing.
\<close>

theorem events_for_removed_image_are_ignored:
  assumes "list_all (addressedTo i) as"
  shows "images (performAll as (removeImage i w)) = images (removeImage i w)
       \<and> i \<notin> id_of ` set (images (performAll as (removeImage i w)))
       \<and> (\<forall>ev. image_id ev = i \<longrightarrow>
             snd (onProgressEvent ev (performAll as (removeImage i w))) = None)"
proof -
  have a: "i \<notin> id_of ` set (images (removeImage i w))"
    by (auto simp: removeImage_def)
  have b: "images (performAll as (removeImage i w)) = images (removeImage i w)"
    using a assms by (rule performAll_addressed_absent)
  have c: "i \<notin> id_of ` set (images (performAll as (removeImage i w)))"
    using a b by simp
  show ?thesis
    using b c by (auto simp: onProgressEvent_absent)
qed

lemma journal_only:
  assumes "\<And>k. x\<lparr>journal := k\<rparr> = y\<lparr>journal := k\<rparr>"
  shows "x = y\<lparr>journal := journal x\<rparr>"
proof -
  have "x = x\<lparr>journal := journal x\<rparr>" by simp
  then show ?thesis using assms[of "journal x"] by simp
qed

lemma updateImageProgress_journal:
  "(updateImageProgress i p (w\<lparr>journal := j\<rparr>))\<lparr>journal := k\<rparr>
   = (updateImageProgress i p w)\<lparr>journal := k\<rparr>"
  by (simp add: updateImageProgress_def mapImages_def setImages_def)

lemma mapImagesE_journal:
  "mapImagesE f (w\<lparr>journal := j\<rparr>)
   = (case mapImagesE f w of
        Inl e \<Rightarrow> Inl e
      | Inr w' \<Rightarrow> Inr (w'\<lparr>journal := j @ drop (length (journal w)) (journal w')\<rparr>))"
  by (simp add: mapImagesE_def setImages_def split: sum.splits)

lemma onProgressEvent_journal:
  "(fst (onProgressEvent ev (w\<lparr>journal := j\<rparr>)))\<lparr>journal := k\<rparr>
   = (fst (onProgressEvent ev w))\<lparr>journal := k\<rparr>"
proof -
  let ?u = "\<lambda>w. updateImageProgress (image_id ev) (Math_round (binary64 (event_progress ev * 100))) w"
  have "?u (w\<lparr>journal := j\<rparr>) = (?u w)\<lparr>journal := journal (?u (w\<lparr>journal := j\<rparr>))\<rparr>"
    by (rule journal_only) (rule updateImageProgress_journal)
  then obtain j1 where j1: "?u (w\<lparr>journal := j\<rparr>) = (?u w)\<lparr>journal := j1\<rparr>" ..
  show ?thesis
    by (auto simp: onProgressEvent_def Let_def j1 mapImagesE_journal split: sum.splits)
qed

lemma deliver_journal:
  "(deliver ls ev (w\<lparr>journal := j\<rparr>))\<lparr>journal := k\<rparr> = (deliver ls ev w)\<lparr>journal := k\<rparr>"
proof (induction ls arbitrary: w j)
  case Nil
  then show ?case by simp
next
  case (Cons h hs)
  have "fst (onProgressEvent ev (w\<lparr>journal := j\<rparr>))
        = (fst (onProgressEvent ev w))\<lparr>journal := journal (fst (onProgressEvent ev (w\<lparr>journal := j\<rparr>)))\<rparr>"
    by (rule journal_only) (rule onProgressEvent_journal)
  then obtain j1 where "fst (onProgressEvent ev (w\<lparr>journal := j\<rparr>))
                        = (fst (onProgressEvent ev w))\<lparr>journal := j1\<rparr>" ..
  then show ?case
    using Cons.IH[where w = "fst (onProgressEvent ev w)" and j = j1] by simp
qed

lemma perform_journal:
  "(perform a (w\<lparr>journal := j\<rparr>))\<lparr>journal := k\<rparr> = (perform a w)\<lparr>journal := k\<rparr>"
proof (cases a)
  case (BackendEvent ev)
  then show ?thesis
    using deliver_journal[where ls = "listeners w" and ev = ev and w = w and j = j and k = k]
    by (simp add: backendEvent_def)
next
  case (UpdateImageProgress i p)
  then show ?thesis by (simp add: updateImageProgress_journal)
qed (auto simp: appendImages_def removeImage_def clearImages_def resetProcessingImages_def
       mapImages_def setImages_def setCompressionSettings_def toggleWebPConversion_def
       toggleLossyMode_def setQuality_def initializeProgressListener_def setupListener_def
     split: option.splits)

lemma performAll_journal:
  "(performAll as (w\<lparr>journal := j\<rparr>))\<lparr>journal := k\<rparr> = (performAll as w)\<lparr>journal := k\<rparr>"
proof (induction as arbitrary: w j)
  case Nil
  then show ?case by simp
next
  case (Cons a as)
  have "perform a (w\<lparr>journal := j\<rparr>)
        = (perform a w)\<lparr>journal := journal (perform a (w\<lparr>journal := j\<rparr>))\<rparr>"
    by (rule journal_only) (rule perform_journal)
  then obtain j1 where "perform a (w\<lparr>journal := j\<rparr>) = (perform a w)\<lparr>journal := j1\<rparr>" ..
  then show ?case
    using Cons.IH[where w = "perform a w" and j = j1] by simp
qed

lemma images_performAll_emit:
  "images (performAll as (emit es w)) = images (performAll as w)"
proof -
  have "images ((performAll as (w\<lparr>journal := journal w @ es\<rparr>))\<lparr>journal := []\<rparr>)
        = images ((performAll as w)\<lparr>journal := []\<rparr>)"
    by (simp only: performAll_journal)
  then show ?thesis by (simp add: emit_def)
qed

text \<open>
  Claim C10. \<^verbatim>\<open>addImages\<close> compares the paths given with the paths of the
  collection. When every path is in the collection, the state is unchanged. Otherwise the
  collection of the moment of the final write is kept as it is and one pending record is
  appended for each path that was not in the collection, in the order given; its size is
  the one the backend returned, and 0 when the backend failed.
\<close>

theorem addImages_deduplicates_by_path:
  fixes w :: World
  defines "known \<equiv> path ` set (images w)"
  shows "(set filePaths \<subseteq> known \<longrightarrow>
            addImages detectImageFormat fileInformation tempId during filePaths w = w)
       \<and> (\<not> set filePaths \<subseteq> known \<longrightarrow>
            (\<exists>new. images (addImages detectImageFormat fileInformation tempId during filePaths w)
                    = images (performAll during w) @ new
                  \<and> map path new = filter (\<lambda>p. p \<notin> known) filePaths
                  \<and> (\<forall>x \<in> set new. status x = Pending
                        \<and> originalSize x
                          = (case fileInformation (path x) of None \<Rightarrow> 0 | Some n \<Rightarrow> n))))"
proof -
  let ?u = "filter (\<lambda>p. p \<notin> set (map path (images w))) filePaths"
  let ?new = "map (\<lambda>(k, filePath). newImage detectImageFormat fileInformation (tempId k) filePath)
                  (enumerate 0 ?u)"
  have e: "(?u = []) = (set filePaths \<subseteq> known)"
    by (auto simp: known_def filter_empty_conv)
  have p: "map path ?new = ?u"
    by (simp add: newImage_def Let_def split_def map_snd_enumerate comp_def)
  have q: "\<forall>x \<in> set ?new. status x = Pending
            \<and> originalSize x = (case fileInformation (path x) of None \<Rightarrow> 0 | Some n \<Rightarrow> n)"
    by (auto simp: newImage_def Let_def)
  have j: "\<And>es v. images (emit es v) = images v" by (simp add: emit_def)
  have i: "?u \<noteq> [] \<Longrightarrow>
           images (addImages detectImageFormat fileInformation tempId during filePaths w)
           = images (performAll during (emit (map InvokeGetFileInformation ?u) w)) @ ?new"
    by (simp add: addImages_def Let_def j appendImages_def)
  show ?thesis
    using e p q i by (auto simp: images_performAll_emit known_def addImages_def)
qed

section \<open>The example run\<close>

lemma pendingImages_demoWorld:
  "pendingImages demoWorld = [demoImage ''a'' ''PNG'' Pending, demoImage ''c'' ''WEBP'' Pending]"
  by (simp add: pendingImages_def demoWorld_def isPending_def demoImage_def)

lemma quietScript_quiet:
  "quietOutcome (map id_of (pendingImages demoWorld)) (quietScript k)"
  by (simp add: pendingImages_demoWorld quietOutcome_def quietScript_def demoSuccess_def
        demoFailure_def demoEvent_def demoImage_def)

lemma demoWorld_distinct: "distinct (map id_of (images demoWorld))"
  by (simp add: demoWorld_def demoImage_def)

theorem startCompression_snapshot_in_order_witness:
  "\<not> isProcessing demoWorld
   \<and> distinct (map id_of (images demoWorld))
   \<and> (\<forall>k. quietOutcome (map id_of (pendingImages demoWorld)) (quietScript k))
   \<and> orchestration (journal (fst (startCompression quietScript demoWorld)))
     = [StatusChange ''a'' Pending Processing (Some 0),
        InvokeCompressImage
          \<lparr>file_path = ''/p/a'', request_quality = 75, request_format = ''webp''\<rparr> ''a'',
        StatusChange ''a'' Processing Completed None,
        StatusChange ''c'' Pending Processing (Some 0),
        InvokeCompressImage
          \<lparr>file_path = ''/p/c'', request_quality = 75, request_format = ''webp''\<rparr> ''c'',
        StatusChange ''c'' Processing Error None]"
proof -
  have h1: "\<not> isProcessing demoWorld" by (simp add: demoWorld_def)
  have h3: "\<forall>k. quietOutcome (map id_of (pendingImages demoWorld)) (quietScript k)"
    by (simp add: quietScript_quiet)
  have h4: "\<And>k. progressStartReply (quietScript k) = None"
    by (simp add: quietScript_def demoSuccess_def demoFailure_def)
  have s: "finalStatus (quietScript 0) = Completed" "finalStatus (quietScript (Suc 0)) = Error"
    by (simp_all add: finalStatus_def succeeded_def quietScript_def demoSuccess_def demoFailure_def)
  have j: "journal demoWorld = []" "compressionSettings demoWorld = demoSettings"
    by (simp_all add: demoWorld_def)
  show ?thesis
    using startCompression_snapshot_in_order [OF h1 demoWorld_distinct h3] h1 h3
    by (simp add: demoWorld_distinct pendingImages_demoWorld s j h4 orchestration_def
          compressRequest_def demoSettings_def demoImage_def)
qed

text \<open>
  Claim C1 as stated fails: in the example the images \<open>a\<close> and \<open>c\<close> are pending
  when the run starts, and \<open>c\<close> is removed while the backend compresses \<open>a\<close>.
  The run still calls \<^verbatim>\<open>compress_image\<close> for \<open>c\<close>, and no record goes
  from pending to processing for it: the journal has one change to processing, for
  \<open>a\<close>, and two calls.
\<close>

theorem startCompression_snapshot_counterexample:
  "isProcessing demoWorld = False
   \<and> map id_of (pendingImages demoWorld) = [''a'', ''c'']
   \<and> snd (startCompression removingScript demoWorld) = None
   \<and> orchestration (journal (fst (startCompression removingScript demoWorld)))
     = [StatusChange ''a'' Pending Processing (Some 0),
        InvokeCompressImage
          \<lparr>file_path = ''/p/a'', request_quality = 75, request_format = ''webp''\<rparr> ''a'',
        StatusChange ''a'' Processing Completed None,
        InvokeCompressImage
          \<lparr>file_path = ''/p/c'', request_quality = 75, request_format = ''webp''\<rparr> ''c'']
   \<and> processingStarts (journal (fst (startCompression removingScript demoWorld))) = [''a'']
   \<and> map id_of (images (fst (startCompression removingScript demoWorld))) = [''a'', ''b'']"
  by code_simp

theorem startCompression_while_running_witness:
  "isProcessing busyWorld \<and> startCompression quietScript busyWorld = (busyWorld, None)"
proof -
  have h: "isProcessing busyWorld" by (simp add: busyWorld_def)
  show ?thesis
    using startCompression_while_running [OF h, of quietScript] h by simp
qed



text \<open>
  Claim C4 as stated fails: in the example run the quality is set to 50 and the format kept
  while the first image is compressed, and the request for the second image still carries
  the quality 75 and the format \<^verbatim>\<open>webp\<close> of the start; 75 is no quality of the
  resolver for any preset.
\<close>

theorem compress_requests_counterexample:
  "compressCalls (journal (fst (startCompression quietScript demoWorld)))
   = [(\<lparr>file_path = ''/p/a'', request_quality = 75, request_format = ''webp''\<rparr>, ''a''),
      (\<lparr>file_path = ''/p/c'', request_quality = 75, request_format = ''webp''\<rparr>, ''c'')]
   \<and> compressionSettings (fst (startCompression quietScript demoWorld))
     = \<lparr>qualitySetting = 50, keepOriginalFormat = True\<rparr>
   \<and> 75 \<notin> set (resolverQualities ''PNG'')
   \<and> 75 \<notin> set (resolverQualities ''WEBP'')"
  by code_simp


text \<open>
  The percent is the rounding of the binary64 product, not of the exact product. For the
  binary64 value nearest to 0.045 the exact product is below 4.5 and the binary64 product
  is 4.5: the percent is 5. For the one nearest to 0.995 the exact product is below 99.5
  and the binary64 product is 99.5: the percent is 100. The binary64 value nearest to 0.1
  is \<open>3602879701896397 / 2 ^ 55\<close>.
\<close>

lemma percent_of_binary64_product:
  "binary64 (45 / 1000) < 45 / 1000
   \<and> Math_round (binary64 (45 / 1000) * 100) = 4
   \<and> binary64 (binary64 (45 / 1000) * 100) = 9 / 2
   \<and> Math_round (binary64 (binary64 (45 / 1000) * 100)) = 5
   \<and> Math_round (binary64 (995 / 1000) * 100) = 99
   \<and> binary64 (binary64 (995 / 1000) * 100) = 199 / 2
   \<and> Math_round (binary64 (binary64 (995 / 1000) * 100)) = 100
   \<and> binary64 (1 / 10) = 3602879701896397 / 2 ^ 55
   \<and> binary64 (1 / 2) = 1 / 2"
  by code_simp


theorem events_for_removed_image_are_ignored_witness:
  "list_all (addressedTo ''a'')
     [UpdateImageProgress ''a'' 70, BackendEvent (demoEvent ''a'' StageError)]
   \<and> images (performAll [UpdateImageProgress ''a'' 70, BackendEvent (demoEvent ''a'' StageError)]
               (removeImage ''a'' activeWorld))
     = [demoImage ''b'' ''JPEG'' Completed]"
proof -
  have h: "list_all (addressedTo ''a'')
             [UpdateImageProgress ''a'' 70, BackendEvent (demoEvent ''a'' StageError)]"
    by (simp add: demoEvent_def)
  have r: "images (removeImage ''a'' activeWorld) = [demoImage ''b'' ''JPEG'' Completed]"
    by (simp add: removeImage_def activeWorld_def demoImage_def)
  show ?thesis
    using events_for_removed_image_are_ignored [OF h, of activeWorld] h r by simp
qed

theorem addImages_deduplicates_by_path_witness:
  "addImages demoDetect noFileInformation demoTempId [] [''/p/a'', ''/p/c''] demoWorld = demoWorld
   \<and> map (\<lambda>x. (path x, originalSize x))
         (images (addImages demoDetect noFileInformation demoTempId []
                    [''/p/a'', ''/q/x.png''] demoWorld))
     = [(''/p/a'', 1000), (''/p/b'', 1000), (''/p/c'', 1000), (''/q/x.png'', 0)]"
proof -
  let ?known = "path ` set (images demoWorld)"
  have k: "?known = {''/p/a'', ''/p/b'', ''/p/c''}"
    by (auto simp: demoWorld_def demoImage_def)
  have h1: "set [''/p/a'', ''/p/c''] \<subseteq> ?known" by (simp add: k)
  have h2: "\<not> set [''/p/a'', ''/q/x.png''] \<subseteq> ?known" by (simp add: k)
  have f: "filter (\<lambda>p. p \<notin> ?known) [''/p/a'', ''/q/x.png''] = [''/q/x.png'']"
    by (simp add: k)
  note t1 = addImages_deduplicates_by_path
    [of "[''/p/a'', ''/p/c'']" demoWorld demoDetect noFileInformation demoTempId "[]"]
  note t2 = addImages_deduplicates_by_path
    [of "[''/p/a'', ''/q/x.png'']" demoWorld demoDetect noFileInformation demoTempId "[]"]
  obtain new where new:
    "images (addImages demoDetect noFileInformation demoTempId [] [''/p/a'', ''/q/x.png''] demoWorld)
      = images demoWorld @ new"
    "map path new = [''/q/x.png'']"
    "\<forall>x \<in> set new. originalSize x = 0"
    using t2 h2 f by (auto simp: noFileInformation_def)
  obtain x where x: "new = [x]" "path x = ''/q/x.png''"
    using new(2) by (cases new) auto
  have "originalSize x = 0" using new(3) x by simp
  then have "map (\<lambda>x. (path x, originalSize x)) new = [(''/q/x.png'', 0)]"
    using x by simp
  then show ?thesis
    using t1 h1 new(1) by (simp add: demoWorld_def demoImage_def)
qed


end
